theory Spec2Isabelle
  imports Complex_Main "HOL-Library.Product_Lexorder"
begin

section \<open>The even-number filters\<close>

text \<open>
  \<^verbatim>\<open>even_numbers.py\<close> and \<^verbatim>\<open>identify_even_numbers.py\<close> work on Python integers,
  which are unbounded: \<^typ>\<open>int\<close>. Python's \<^verbatim>\<open>%\<close> takes the sign of the divisor, as
  \<^term>\<open>(mod)\<close> on \<^typ>\<open>int\<close> does, so \<^verbatim>\<open>n % 2\<close> is 0 or 1 for every integer.
\<close>

definition is_even :: "int \<Rightarrow> bool" where
  "is_even number = (number mod 2 = 0)"

definition find_even_numbers :: "int list \<Rightarrow> int list" where
  "find_even_numbers numbers = [num \<leftarrow> numbers. num mod 2 = 0]"

definition identify_even_numbers :: "int list \<Rightarrow> int list" where
  "identify_even_numbers numbers = [num \<leftarrow> numbers. is_even num]"

text \<open>The spec's wording of C9, to compare both functions with: the elements whose
  remainder modulo 2 is 0, in their original order.\<close>

fun evens_in_order :: "int list \<Rightarrow> int list" where
  "evens_in_order [] = []"
| "evens_in_order (n # ns) = (if n mod 2 = 0 then n # evens_in_order ns else evens_in_order ns)"

section \<open>Python values\<close>

text \<open>
  A Python \<^verbatim>\<open>str\<close> is a sequence of Unicode code points and \<^verbatim>\<open>len\<close> counts them, so a
  string is a list of code points here. \<open>lit\<close> reads an ASCII literal of the source.
\<close>

type_synonym ustr = "nat list"

definition lit :: "string \<Rightarrow> ustr" where
  "lit s = map of_char s"

definition ELLIPSIS :: ustr where
  "ELLIPSIS = [8230]"

definition EM_DASH :: ustr where
  "EM_DASH = [8212]"

text \<open>
  What \<^verbatim>\<open>json.loads\<close> can return. \<open>JNull\<close> is Python's \<^verbatim>\<open>None\<close>. A float is kept by its
  value (every double is a rational, a signed zero, an infinity or a NaN); a dict is its list
  of items, looked up by key.
\<close>

datatype pyfloat = Finite rat | NegZero | Infinite bool | NaN

datatype json =
    JNull
  | JBool bool
  | JInt int
  | JFloat pyfloat
  | JStr ustr
  | JArr "json list"
  | JObj "(ustr \<times> json) list"

datatype error =
  AttributeError | TypeError | ValueError | OverflowError | OSError | CsvError
  | UnicodeEncodeError

text \<open>Truth value testing, as \<^verbatim>\<open>not x\<close> and \<^verbatim>\<open>x or y\<close> use it.\<close>

fun truthy :: "json \<Rightarrow> bool" where
  "truthy JNull = False"
| "truthy (JBool b) = b"
| "truthy (JInt n) = (n \<noteq> 0)"
| "truthy (JFloat (Finite r)) = (r \<noteq> 0)"
| "truthy (JFloat NegZero) = False"
| "truthy (JFloat (Infinite _)) = True"
| "truthy (JFloat NaN) = True"
| "truthy (JStr s) = (s \<noteq> [])"
| "truthy (JArr xs) = (xs \<noteq> [])"
| "truthy (JObj kvs) = (kvs \<noteq> [])"

definition py_or :: "json \<Rightarrow> json \<Rightarrow> json" where
  "py_or a b = (if truthy a then a else b)"

text \<open>\<^verbatim>\<open>d.get(k)\<close>: the value stored under \<open>k\<close>, \<^verbatim>\<open>None\<close> when there is none.\<close>

definition dict_get :: "(ustr \<times> json) list \<Rightarrow> ustr \<Rightarrow> json" where
  "dict_get d k = (case map_of d k of None \<Rightarrow> JNull | Some v \<Rightarrow> v)"

text \<open>\<^verbatim>\<open>xs[:k]\<close> for an integer \<open>k\<close>: a negative \<open>k\<close> counts from the end.\<close>

definition slice_to :: "int \<Rightarrow> 'a list \<Rightarrow> 'a list" where
  "slice_to k xs = (if 0 \<le> k then take (nat k) xs else take (length xs - nat (- k)) xs)"

text \<open>\<^verbatim>\<open>str\<close> of an integer: its decimal digits, with a minus sign when negative.\<close>

fun digits :: "nat \<Rightarrow> ustr" where
  "digits n = (if n < 10 then [48 + n] else digits (n div 10) @ [48 + n mod 10])"

declare digits.simps [simp del]

definition str_int :: "int \<Rightarrow> ustr" where
  "str_int n = (if n < 0 then 45 # digits (nat (- n)) else digits (nat n))"

text \<open>
  The run's environment. The parts of the Python runtime and of the outside world that the
  scripts call but do not define are parameters:
  \<^item> \<open>net url\<close> is what the guarded request of \<^verbatim>\<open>fetch_json\<close> yields for \<open>url\<close>: the decoded
    body, or \<open>None\<close> when one of the exceptions it catches was raised (a URL requested
    twice is answered twice the same way; an exception that \<^verbatim>\<open>fetch_json\<close> does not catch is
    not part of the model);
  \<^item> \<open>cutoff_of window_hours\<close> is the epoch second that lines 110 to 112 of
    \<^verbatim>\<open>hn_top10_daily.py\<close> compute from the clock (the time in Asia/Kolkata minus the window,
    as a UTC timestamp, truncated), or the exception that the date arithmetic raises;
  \<^item> \<open>int_of_str\<close> is \<^verbatim>\<open>int\<close> on a string (\<open>None\<close>: it raises ValueError);
  \<^item> \<open>repr\<close> is \<^verbatim>\<open>str\<close> on a float, a list or a dict;
  \<^item> \<open>ist t\<close> is the epoch second \<open>t\<close> rendered by \<^verbatim>\<open>created_at_ist\<close> through the zone
    database and \<^verbatim>\<open>strftime\<close>, or the exception raised for a time outside the calendar.
\<close>

record env =
  net :: "ustr \<Rightarrow> json option"
  cutoff_of :: "int \<Rightarrow> error + int"
  int_of_str :: "ustr \<Rightarrow> int option"
  repr :: "json \<Rightarrow> ustr"
  ist :: "int \<Rightarrow> error + ustr"

text \<open>
  \<^verbatim>\<open>str(v)\<close>, which \<^verbatim>\<open>format\<close> and f-strings with an empty format spec also produce. On
  the values that \<^verbatim>\<open>json.loads\<close> returns and on the integers that \<^verbatim>\<open>int\<close> makes of them it
  returns: such an integer has no more digits than the interpreter converts to a string.
\<close>

fun py_str :: "env \<Rightarrow> json \<Rightarrow> ustr" where
  "py_str E JNull = lit ''None''"
| "py_str E (JBool b) = (if b then lit ''True'' else lit ''False'')"
| "py_str E (JInt n) = str_int n"
| "py_str E (JStr s) = s"
| "py_str E v = repr E v"

text \<open>\<^verbatim>\<open>int(v)\<close>. A float is truncated towards zero.\<close>

fun py_int :: "env \<Rightarrow> json \<Rightarrow> error + int" where
  "py_int E (JInt n) = Inr n"
| "py_int E (JBool b) = Inr (if b then 1 else 0)"
| "py_int E (JFloat (Finite r)) = Inr (if 0 \<le> r then \<lfloor>r\<rfloor> else \<lceil>r\<rceil>)"
| "py_int E (JFloat NegZero) = Inr 0"
| "py_int E (JFloat (Infinite _)) = Inl OverflowError"
| "py_int E (JFloat NaN) = Inl ValueError"
| "py_int E (JStr s) = (case int_of_str E s of None \<Rightarrow> Inl ValueError | Some n \<Rightarrow> Inr n)"
| "py_int E JNull = Inl TypeError"
| "py_int E (JArr _) = Inl TypeError"
| "py_int E (JObj _) = Inl TypeError"

text \<open>\<^verbatim>\<open>len(v)\<close>; a dict counts its distinct keys.\<close>

fun py_len :: "json \<Rightarrow> error + int" where
  "py_len (JStr s) = Inr (int (length s))"
| "py_len (JArr xs) = Inr (int (length xs))"
| "py_len (JObj kvs) = Inr (int (length (remdups (map fst kvs))))"
| "py_len _ = Inl TypeError"

text \<open>\<^verbatim>\<open>sep.join(parts)\<close>\<close>

fun py_join :: "ustr \<Rightarrow> ustr list \<Rightarrow> ustr" where
  "py_join sep [] = []"
| "py_join sep [p] = p"
| "py_join sep (p # q # ps) = p @ sep @ py_join sep (q # ps)"

definition ljust :: "nat \<Rightarrow> ustr \<Rightarrow> ustr" where
  "ljust w s = s @ replicate (w - length s) 32"

text \<open>
  \<^verbatim>\<open>f.write(s)\<close> on a file opened with \<^verbatim>\<open>encoding="utf-8"\<close>. The text is encoded when it is
  written. Every code point has a UTF-8 encoding but the surrogates, U+D800 to U+DFFF,
  which \<^verbatim>\<open>json.loads\<close> makes of an unpaired surrogate escape: on a text that holds one,
  \<^verbatim>\<open>write\<close> raises UnicodeEncodeError and adds nothing to the file. \<open>file_write s\<close> is what
  the call adds to the file, or the exception; the file system is taken to accept what
  was encoded.
\<close>

definition utf8_ok :: "ustr \<Rightarrow> bool" where
  "utf8_ok s = (\<not> list_ex (\<lambda>c. 55296 \<le> c \<and> c \<le> 57343) s)"

definition file_write :: "ustr \<Rightarrow> error + ustr" where
  "file_write s = (if utf8_ok s then Inr s else Inl UnicodeEncodeError)"

section \<open>hn\_top10\_daily.py\<close>

definition API_BASE :: ustr where
  "API_BASE = lit ''https://hacker-news.firebaseio.com/v0''"

definition NEW_STORIES_ENDPOINT :: ustr where
  "NEW_STORIES_ENDPOINT = API_BASE @ lit ''/newstories.json''"

definition ITEM_ENDPOINT :: "env \<Rightarrow> json \<Rightarrow> ustr" where
  "ITEM_ENDPOINT E i = API_BASE @ lit ''/item/'' @ py_str E i @ lit ''.json''"

definition HN_ITEM_URL :: "env \<Rightarrow> json \<Rightarrow> ustr" where
  "HN_ITEM_URL E i = lit ''https://news.ycombinator.com/item?id='' @ py_str E i"

text \<open>
  The dataclass \<^verbatim>\<open>Story\<close>. Its annotations are not enforced: \<^verbatim>\<open>get_item\<close> stores
  whatever the record holds under \<^verbatim>\<open>id\<close>, \<^verbatim>\<open>title\<close>, \<^verbatim>\<open>url\<close> and \<^verbatim>\<open>by\<close>, so these four fields
  hold any value; the other three hold the result of \<^verbatim>\<open>int\<close>.
\<close>

record story =
  id' :: json
  title :: json
  url :: json
  score :: int
  by' :: json
  time :: int
  descendants :: int

definition hn_link :: "env \<Rightarrow> story \<Rightarrow> ustr" where
  "hn_link E s = HN_ITEM_URL E (id' s)"

definition created_at_ist :: "env \<Rightarrow> story \<Rightarrow> error + ustr" where
  "created_at_ist E s = ist E (time s)"

definition fetch_json :: "env \<Rightarrow> ustr \<Rightarrow> json option" where
  "fetch_json E u = net E u"

definition get_new_story_ids :: "env \<Rightarrow> json list" where
  "get_new_story_ids E =
     (case fetch_json E NEW_STORIES_ENDPOINT of
        Some (JArr ids) \<Rightarrow> ids
      | _ \<Rightarrow> [])"

text \<open>
  \<^verbatim>\<open>Story(...)\<close> of lines 83 to 91, from the dict \<open>d\<close>. The arguments are evaluated in
  order, so the first \<^verbatim>\<open>int\<close> that raises decides the exception.
\<close>

definition make_story :: "env \<Rightarrow> (ustr \<times> json) list \<Rightarrow> error + story" where
  "make_story E d =
     (case py_int E (py_or (dict_get d (lit ''score'')) (JInt 0)) of
        Inl e \<Rightarrow> Inl e
      | Inr sc \<Rightarrow>
     (case py_int E (py_or (dict_get d (lit ''time'')) (JInt 0)) of
        Inl e \<Rightarrow> Inl e
      | Inr t \<Rightarrow>
     (case py_int E (py_or (dict_get d (lit ''descendants'')) (JInt 0)) of
        Inl e \<Rightarrow> Inl e
      | Inr ds \<Rightarrow>
          Inr \<lparr> id' = dict_get d (lit ''id''),
                title = py_or (dict_get d (lit ''title'')) (JStr (lit ''(no title)'')),
                url = dict_get d (lit ''url''),
                score = sc,
                by' = py_or (dict_get d (lit ''by'')) (JStr (lit ''unknown'')),
                time = t,
                descendants = ds \<rparr>)))"

text \<open>
  \<^verbatim>\<open>get_item\<close>: \<open>Inr None\<close> is the return value \<^verbatim>\<open>None\<close>, \<open>Inl e\<close> an exception that leaves
  the function. A decoded value that is true but is not a dict has no \<^verbatim>\<open>get\<close>.
\<close>

definition get_item :: "env \<Rightarrow> json \<Rightarrow> error + story option" where
  "get_item E story_id =
     (case fetch_json E (ITEM_ENDPOINT E story_id) of
        None \<Rightarrow> Inr None
      | Some data \<Rightarrow>
          if \<not> truthy data then Inr None
          else (case data of
                  JObj d \<Rightarrow>
                    if dict_get d (lit ''type'') \<noteq> JStr (lit ''story'') then Inr None
                    else (case make_story E d of Inl e \<Rightarrow> Inl e | Inr s \<Rightarrow> Inr (Some s))
                | _ \<Rightarrow> Inl AttributeError))"

text \<open>
  \<^verbatim>\<open>human_trunc\<close>. Past the length test only a string can be cut and extended: a list
  cannot be added to a string and a dict cannot be sliced (a TypeError up to Python
  3.11, a KeyError from 3.12 on, where a slice is hashable).
\<close>

definition human_trunc :: "json \<Rightarrow> int \<Rightarrow> error + json" where
  "human_trunc s max_len =
     (let s = py_or s (JStr []) in
      case py_len s of
        Inl e \<Rightarrow> Inl e
      | Inr n \<Rightarrow>
          if n \<le> max_len then Inr s
          else (case s of
                  JStr t \<Rightarrow> Inr (JStr (slice_to (max_len - 1) t @ ELLIPSIS))
                | _ \<Rightarrow> Inl TypeError))"

subsection \<open>The collector\<close>

text \<open>
  \<^verbatim>\<open>recent.sort(key=..., reverse=True)\<close>: Python's sort is stable and stays so with
  \<^verbatim>\<open>reverse=True\<close>: it reverses the list, sorts it in ascending order and reverses the
  result, so stories with equal keys keep their order. The key is a tuple of integers,
  compared lexicographically.
\<close>

definition rank_key :: "story \<Rightarrow> int \<times> int \<times> int" where
  "rank_key s = (score s, descendants s, time s)"

definition sort_reverse :: "('a \<Rightarrow> 'k::linorder) \<Rightarrow> 'a list \<Rightarrow> 'a list" where
  "sort_reverse key xs = rev (sort_key key (rev xs))"

text \<open>Lines 113 and 116 to 117: the window filter, and the ranking of what it keeps.\<close>

definition window_filter :: "int \<Rightarrow> story list \<Rightarrow> story list" where
  "window_filter cutoff_ts stories = [s \<leftarrow> stories. time s \<ge> cutoff_ts]"

definition rank_top10 :: "story list \<Rightarrow> story list" where
  "rank_top10 recent = slice_to 10 (sort_reverse rank_key recent)"

text \<open>
  The loop over \<^verbatim>\<open>ex.map(get_item, ids)\<close>: the results come in the order of \<open>ids\<close>; a
  result \<^verbatim>\<open>None\<close> is skipped (a \<^verbatim>\<open>Story\<close> object is always true), and the first call
  that raised raises again here.
\<close>

fun pool_results :: "(error + story option) list \<Rightarrow> error + story list" where
  "pool_results [] = Inr []"
| "pool_results (Inl e # rs) = Inl e"
| "pool_results (Inr None # rs) = pool_results rs"
| "pool_results (Inr (Some s) # rs) =
     (case pool_results rs of Inl e \<Rightarrow> Inl e | Inr stories \<Rightarrow> Inr (s # stories))"

text \<open>
  \<^verbatim>\<open>collect_top_new\<close> returns its result, or the exception that leaves it, together
  with the item URLs it handed to the pool for fetching, in the order of submission.
\<close>

definition collect_top_new :: "env \<Rightarrow> int \<Rightarrow> int \<Rightarrow> (error + story list) \<times> ustr list" where
  "collect_top_new E limit window_hours =
     (let ids = slice_to limit (get_new_story_ids E) in
      if ids = [] then (Inr [], [])
      else
        (case pool_results (map (get_item E) ids) of
           Inl e \<Rightarrow> (Inl e, map (ITEM_ENDPOINT E) ids)
         | Inr stories \<Rightarrow>
             (case cutoff_of E window_hours of
                Inl e \<Rightarrow> (Inl e, map (ITEM_ENDPOINT E) ids)
              | Inr cutoff_ts \<Rightarrow>
                  (Inr (rank_top10 (window_filter cutoff_ts stories)),
                   map (ITEM_ENDPOINT E) ids))))"

subsection \<open>The table\<close>

text \<open>\<^verbatim>\<open>zip(*rows)\<close>: the columns, as many as the shortest row has cells.\<close>

definition zip_star :: "'a list list \<Rightarrow> 'a list list" where
  "zip_star rows =
     (case rows of
        [] \<Rightarrow> []
      | r # rs \<Rightarrow> map (\<lambda>j. map (\<lambda>row. row ! j) rows) [0 ..< foldr min (map length rs) (length r)])"

definition headers :: "json list" where
  "headers = map (JStr \<circ> lit)
     [''#'', ''Title'', ''Score'', ''Comments'', ''By'', ''Created (IST)'', ''HN Link'', ''URL'']"

text \<open>The rows of lines 127 to 137, numbered from \<open>i\<close>; a cell is built, or raises, in the
  order of the list display.\<close>

fun table_rows :: "env \<Rightarrow> int \<Rightarrow> story list \<Rightarrow> error + json list list" where
  "table_rows E i [] = Inr []"
| "table_rows E i (s # ss) =
     (case human_trunc (title s) 80 of
        Inl e \<Rightarrow> Inl e
      | Inr t \<Rightarrow>
     (case created_at_ist E s of
        Inl e \<Rightarrow> Inl e
      | Inr c \<Rightarrow>
     (case human_trunc (py_or (url s) (JStr (hn_link E s))) 80 of
        Inl e \<Rightarrow> Inl e
      | Inr u \<Rightarrow>
     (case table_rows E (i + 1) ss of
        Inl e \<Rightarrow> Inl e
      | Inr rows \<Rightarrow>
          Inr ([JInt i, t, JInt (score s), JInt (descendants s), by' s, JStr c,
                JStr (hn_link E s), u] # rows)))))"

definition col_widths :: "env \<Rightarrow> json list list \<Rightarrow> nat list" where
  "col_widths E rows =
     map (\<lambda>col. foldr max (map (\<lambda>x. length (py_str E x)) col) 0) (zip_star (headers # rows))"

definition fmt_row :: "env \<Rightarrow> nat list \<Rightarrow> json list \<Rightarrow> ustr" where
  "fmt_row E widths row =
     py_join (lit '' | '') (map (\<lambda>(v, w). ljust w (py_str E v)) (zip row widths))"

text \<open>\<^verbatim>\<open>print_table\<close>: the lines it prints, or the exception raised while the rows are
  built, before anything is printed.\<close>

definition print_table :: "env \<Rightarrow> story list \<Rightarrow> error + ustr list" where
  "print_table E stories =
     (if stories = [] then Inr [lit ''No stories found in the specified window.'']
      else
        (case table_rows E 1 stories of
           Inl e \<Rightarrow> Inl e
         | Inr rows \<Rightarrow>
             (let widths = col_widths E rows in
              Inr (fmt_row E widths headers
                   # py_join (lit ''-+-'') (map (\<lambda>w. replicate w 45) widths)
                   # map (fmt_row E widths) rows))))"

subsection \<open>The CSV export\<close>

text \<open>
  \<^verbatim>\<open>csv.writer(f).writerow\<close> with the default dialect: \<^verbatim>\<open>None\<close> is written as the empty
  string, a string as it is and any other value through \<^verbatim>\<open>str\<close>; a field holding a comma, a
  double quote, a carriage return or a line feed is put in double quotes with its quotes
  doubled; fields are joined by commas and the record ends with CR LF. A record with a
  single empty field is written as a pair of quotes.
\<close>

definition csv_special :: "nat \<Rightarrow> bool" where
  "csv_special c = (c = 44 \<or> c = 34 \<or> c = 13 \<or> c = 10)"

definition csv_field :: "ustr \<Rightarrow> ustr" where
  "csv_field f =
     (if list_ex csv_special f
      then 34 # concat (map (\<lambda>c. if c = 34 then [34, 34] else [c]) f) @ [34]
      else f)"

definition csv_cell :: "env \<Rightarrow> json \<Rightarrow> ustr" where
  "csv_cell E v = (case v of JNull \<Rightarrow> [] | _ \<Rightarrow> py_str E v)"

definition csv_record :: "ustr list \<Rightarrow> ustr" where
  "csv_record fs =
     (let r = py_join [44] (map csv_field fs)
      in (if fs \<noteq> [] \<and> r = [] then [34, 34] else r) @ [13, 10])"

definition writerow :: "env \<Rightarrow> json list \<Rightarrow> ustr" where
  "writerow E cells = csv_record (map (csv_cell E) cells)"

definition csv_header :: "json list" where
  "csv_header = map (JStr \<circ> lit)
     [''rank'', ''id'', ''title'', ''score'', ''comments'', ''by'', ''created_ist'',
      ''hn_link'', ''url'']"

definition csv_row :: "env \<Rightarrow> int \<Rightarrow> story \<Rightarrow> ustr \<Rightarrow> json list" where
  "csv_row E i s c =
     [JInt i, id' s, title s, JInt (score s), JInt (descendants s), by' s, JStr c,
      JStr (hn_link E s), py_or (url s) (JStr [])]"

text \<open>
  The loop of lines 152 to 153 from rank \<open>i\<close> on: what it adds to the file, and the
  exception that ends it early, if any. \<^verbatim>\<open>created_at_ist\<close> can raise while the row is put
  together, and then the write of the record can, which the writer hands to the file in
  one call; the rows written before stay in the file.
\<close>

fun csv_rows :: "env \<Rightarrow> int \<Rightarrow> story list \<Rightarrow> ustr \<times> error option" where
  "csv_rows E i [] = ([], None)"
| "csv_rows E i (s # ss) =
     (case created_at_ist E s of
        Inl e \<Rightarrow> ([], Some e)
      | Inr c \<Rightarrow>
          (case file_write (writerow E (csv_row E i s c)) of
             Inl e \<Rightarrow> ([], Some e)
           | Inr w \<Rightarrow>
               (case csv_rows E (i + 1) ss of (out, r) \<Rightarrow> (w @ out, r))))"

text \<open>\<^verbatim>\<open>write_csv\<close>: the text of the file at \<open>path\<close> afterwards (it is opened for writing,
  which empties it), and the exception raised, if any.\<close>

definition write_csv :: "env \<Rightarrow> story list \<Rightarrow> ustr \<times> error option" where
  "write_csv E stories =
     (case file_write (writerow E csv_header) of
        Inl e \<Rightarrow> ([], Some e)
      | Inr h \<Rightarrow> (case csv_rows E 1 stories of (out, r) \<Rightarrow> (h @ out, r)))"

subsection \<open>The Markdown export\<close>

definition md_heading :: ustr where
  "md_heading = lit ''# Top 10 New Hacker News (last 24h, IST)'' @ [10, 10]"

text \<open>The item of line 160 without its final line feed, for rank \<open>i\<close>, story \<open>s\<close> and
  rendered time \<open>c\<close>.\<close>

definition md_item :: "env \<Rightarrow> int \<Rightarrow> story \<Rightarrow> ustr \<Rightarrow> ustr" where
  "md_item E i s c =
     str_int i @ lit ''. ['' @ py_str E (title s) @ lit ''](''
     @ py_str E (py_or (url s) (JStr (hn_link E s))) @ lit '') '' @ EM_DASH
     @ lit '' **'' @ str_int (score s) @ lit '' points**, ''
     @ str_int (descendants s) @ lit '' comments '' @ EM_DASH @ lit '' '' @ c
     @ lit '' '' @ EM_DASH @ lit '' [HN]('' @ hn_link E s @ lit '')''"

text \<open>
  The loop of lines 158 to 160 from rank \<open>i\<close> on: what it adds to the file, and the
  exception that ends it early, if any. \<^verbatim>\<open>created_at_ist\<close> can raise while the item is
  formatted, and then the write of the item can; the items written before stay in the
  file.
\<close>

fun md_items :: "env \<Rightarrow> int \<Rightarrow> story list \<Rightarrow> ustr \<times> error option" where
  "md_items E i [] = ([], None)"
| "md_items E i (s # ss) =
     (case created_at_ist E s of
        Inl e \<Rightarrow> ([], Some e)
      | Inr c \<Rightarrow>
          (case file_write (md_item E i s c @ [10]) of
             Inl e \<Rightarrow> ([], Some e)
           | Inr w \<Rightarrow>
               (case md_items E (i + 1) ss of (out, r) \<Rightarrow> (w @ out, r))))"

text \<open>\<^verbatim>\<open>write_md\<close>: the text of the file at \<open>path\<close> afterwards, and the exception raised,
  if any.\<close>

definition write_md :: "env \<Rightarrow> story list \<Rightarrow> ustr \<times> error option" where
  "write_md E stories =
     (case file_write md_heading of
        Inl e \<Rightarrow> ([], Some e)
      | Inr h \<Rightarrow> (case md_items E 1 stories of (out, r) \<Rightarrow> (h @ out, r)))"

section \<open>Reading the exported files back\<close>

text \<open>
  The claims about the exports count lines and parse the CSV file again. Neither is code
  of the repository; both are modelled on what Python does when it reads a text file.

  \<open>readlines\<close> are the lines of a text as the iteration over a file opened with
  \<^verbatim>\<open>newline=''\<close> yields them: a line ends after a line feed, after a carriage return, or
  after a carriage return and the line feed that follows it, and keeps its ending. (With
  the default \<^verbatim>\<open>newline=None\<close> the lines are the same ones, their endings turned into
  line feeds.) \<open>cur\<close> is the part of the current line read so far.
\<close>

fun split_lines :: "ustr \<Rightarrow> ustr \<Rightarrow> ustr list" where
  "split_lines cur [] = (if cur = [] then [] else [cur])"
| "split_lines cur [c] = [cur @ [c]]"
| "split_lines cur (c # d # cs) =
     (if c = 10 then (cur @ [c]) # split_lines [] (d # cs)
      else if c = 13 \<and> d = 10 then (cur @ [c, d]) # split_lines [] cs
      else if c = 13 then (cur @ [c]) # split_lines [] (d # cs)
      else split_lines (cur @ [c]) (d # cs))"

definition readlines :: "ustr \<Rightarrow> ustr list" where
  "readlines text = split_lines [] text"

text \<open>
  \<open>csv_reader\<close> follows \<^verbatim>\<open>csv.reader\<close> with the default dialect (comma, double quote,
  doubled quotes inside quoted fields, not strict), which is the reading of RFC 4180: a
  state machine that is fed the characters of each line and an end-of-line mark after
  it (\<open>None\<close> below). A field may grow to \<open>field_size_limit\<close> characters, the value of
  \<^verbatim>\<open>csv.field_size_limit()\<close> that the module starts with; a character more raises
  \<^verbatim>\<open>csv.Error\<close>.
\<close>

definition field_size_limit :: nat where
  "field_size_limit = 131072"

datatype rstate =
  START_RECORD | START_FIELD | IN_FIELD | IN_QUOTED_FIELD | QUOTE_IN_QUOTED_FIELD | EAT_CRNL

record parser =
  state :: rstate
  field_buf :: ustr
  field_list :: "ustr list"

definition parse_reset :: parser where
  "parse_reset = \<lparr> state = START_RECORD, field_buf = [], field_list = [] \<rparr>"

definition parse_save_field :: "parser \<Rightarrow> parser" where
  "parse_save_field p = p \<lparr> field_list := field_list p @ [field_buf p], field_buf := [] \<rparr>"

definition parse_add_char :: "parser \<Rightarrow> nat \<Rightarrow> error + parser" where
  "parse_add_char p c =
     (if field_size_limit \<le> length (field_buf p) then Inl CsvError
      else Inr (p \<lparr> field_buf := field_buf p @ [c] \<rparr>))"

text \<open>The state to go to once a character has been added.\<close>

definition then_state :: "error + parser \<Rightarrow> rstate \<Rightarrow> error + parser" where
  "then_state r st = (case r of Inl e \<Rightarrow> Inl e | Inr q \<Rightarrow> Inr (q \<lparr> state := st \<rparr>))"

definition is_crnl :: "nat option \<Rightarrow> bool" where
  "is_crnl c = (c = Some 10 \<or> c = Some 13)"

definition after_eol :: "nat option \<Rightarrow> rstate" where
  "after_eol c = (if c = None then START_RECORD else EAT_CRNL)"

text \<open>The state START\_RECORD moves to START\_FIELD on an ordinary character and handles
  it there; \<open>start_field\<close> is that second half.\<close>

definition start_field :: "parser \<Rightarrow> nat option \<Rightarrow> error + parser" where
  "start_field p c =
     (if c = None \<or> is_crnl c then Inr ((parse_save_field p) \<lparr> state := after_eol c \<rparr>)
      else if c = Some 34 then Inr (p \<lparr> state := IN_QUOTED_FIELD \<rparr>)
      else if c = Some 44 then Inr ((parse_save_field p) \<lparr> state := START_FIELD \<rparr>)
      else then_state (parse_add_char p (the c)) IN_FIELD)"

fun parse_process_char :: "parser \<Rightarrow> nat option \<Rightarrow> error + parser" where
  "parse_process_char p c =
     (case state p of
        START_RECORD \<Rightarrow>
          if c = None then Inr p
          else if is_crnl c then Inr (p \<lparr> state := EAT_CRNL \<rparr>)
          else start_field p c
      | START_FIELD \<Rightarrow> start_field p c
      | IN_FIELD \<Rightarrow>
          if c = None \<or> is_crnl c then Inr ((parse_save_field p) \<lparr> state := after_eol c \<rparr>)
          else if c = Some 44 then Inr ((parse_save_field p) \<lparr> state := START_FIELD \<rparr>)
          else parse_add_char p (the c)
      | IN_QUOTED_FIELD \<Rightarrow>
          if c = None then Inr p
          else if c = Some 34 then Inr (p \<lparr> state := QUOTE_IN_QUOTED_FIELD \<rparr>)
          else parse_add_char p (the c)
      | QUOTE_IN_QUOTED_FIELD \<Rightarrow>
          if c = Some 34 then then_state (parse_add_char p 34) IN_QUOTED_FIELD
          else if c = Some 44 then Inr ((parse_save_field p) \<lparr> state := START_FIELD \<rparr>)
          else if c = None \<or> is_crnl c
          then Inr ((parse_save_field p) \<lparr> state := after_eol c \<rparr>)
          else then_state (parse_add_char p (the c)) IN_FIELD
      | EAT_CRNL \<Rightarrow>
          if is_crnl c then Inr p
          else if c = None then Inr (p \<lparr> state := START_RECORD \<rparr>)
          else Inl CsvError)"

text \<open>One line: its characters, then the end-of-line mark.\<close>

fun feed :: "parser \<Rightarrow> nat option list \<Rightarrow> error + parser" where
  "feed p [] = Inr p"
| "feed p (c # cs) = (case parse_process_char p c of Inl e \<Rightarrow> Inl e | Inr q \<Rightarrow> feed q cs)"

definition feed_line :: "parser \<Rightarrow> ustr \<Rightarrow> error + parser" where
  "feed_line p line = feed p (map Some line @ [None])"

text \<open>
  The records of a list of lines. A record is complete when a line leaves the machine in
  START\_RECORD; otherwise the next line continues it. When the lines run out inside a
  quoted field, or with characters of a field pending, what was read is the last record.
\<close>

fun reader_loop :: "parser \<Rightarrow> ustr list \<Rightarrow> error + ustr list list" where
  "reader_loop p [] =
     (if field_buf p \<noteq> [] \<or> state p = IN_QUOTED_FIELD
      then Inr [field_list (parse_save_field p)]
      else Inr [])"
| "reader_loop p (l # ls) =
     (case feed_line p l of
        Inl e \<Rightarrow> Inl e
      | Inr q \<Rightarrow>
          if state q = START_RECORD
          then (case reader_loop parse_reset ls of
                  Inl e \<Rightarrow> Inl e
                | Inr rows \<Rightarrow> Inr (field_list q # rows))
          else reader_loop q ls)"

definition csv_reader :: "ustr \<Rightarrow> error + ustr list list" where
  "csv_reader text = reader_loop parse_reset (readlines text)"

text \<open>
  The same reading, character by character, for the proofs. \<open>line_events\<close> puts the
  end-of-line mark where a line of the text ends: after a line feed, after a carriage
  return that no line feed follows, and after the last character. \<open>reader_events\<close> runs
  the machine over this sequence and closes a record at a mark that leaves it in
  START\_RECORD. It is shown below to agree with \<open>csv_reader\<close>.
\<close>

definition ends_line :: "nat \<Rightarrow> ustr \<Rightarrow> bool" where
  "ends_line c cs = (c = 10 \<or> (c = 13 \<and> (case cs of [] \<Rightarrow> True | d # ds \<Rightarrow> d \<noteq> 10)) \<or> cs = [])"

fun line_events :: "ustr \<Rightarrow> nat option list" where
  "line_events [] = []"
| "line_events (c # cs) = Some c # (if ends_line c cs then [None] else []) @ line_events cs"

fun reader_events :: "parser \<Rightarrow> nat option list \<Rightarrow> error + ustr list list" where
  "reader_events p [] =
     (if field_buf p \<noteq> [] \<or> state p = IN_QUOTED_FIELD
      then Inr [field_list (parse_save_field p)]
      else Inr [])"
| "reader_events p (e # es) =
     (case parse_process_char p e of
        Inl x \<Rightarrow> Inl x
      | Inr q \<Rightarrow>
          if e = None \<and> state q = START_RECORD
          then (case reader_events parse_reset es of
                  Inl x \<Rightarrow> Inl x
                | Inr rows \<Rightarrow> Inr (field_list q # rows))
          else reader_events q es)"

section \<open>Concrete environments\<close>

text \<open>
  Environments to evaluate the definitions in. \<open>serving v\<close> answers every request with
  the decoded body \<open>v\<close>; \<open>offline\<close> fails every request. The clock puts the cutoff at
  second 1000, \<^verbatim>\<open>int\<close> takes no string, containers and floats print as nothing, and a
  time prints as its decimal number when it lies in the years 1 to 9999, which are all
  that \<^verbatim>\<open>datetime\<close> has; for any other time the rendering raises.
\<close>

definition lab_env :: "(ustr \<Rightarrow> json option) \<Rightarrow> env" where
  "lab_env n =
     \<lparr> net = n, cutoff_of = (\<lambda>h. Inr 1000), int_of_str = (\<lambda>s. None),
       repr = (\<lambda>v. []),
       ist = (\<lambda>t. if - 62135596800 \<le> t \<and> t \<le> 253402300799 then Inr (str_int t)
                  else Inl ValueError) \<rparr>"

definition serving :: "json \<Rightarrow> ustr \<Rightarrow> json option" where
  "serving v u = Some v"

definition offline :: "ustr \<Rightarrow> json option" where
  "offline u = None"

text \<open>
  \<open>hn_net items\<close> is a network that serves the newest-stories feed with the identifiers
  of \<open>items\<close>, in their order, and each item's record under its item URL; every other
  request fails. \<open>item n sc ds t\<close> is the record of a story with identifier \<open>n\<close>, score
  \<open>sc\<close>, \<open>ds\<close> descendants and creation time \<open>t\<close>, and \<open>plain n sc ds t\<close> is the Story made
  of it.
\<close>

definition hn_net :: "(int \<times> json) list \<Rightarrow> ustr \<Rightarrow> json option" where
  "hn_net items u =
     (if u = NEW_STORIES_ENDPOINT then Some (JArr (map (\<lambda>(n, v). JInt n) items))
      else map_of (map (\<lambda>(n, v). (API_BASE @ lit ''/item/'' @ str_int n @ lit ''.json'', v)) items) u)"

definition item :: "int \<Rightarrow> int \<Rightarrow> int \<Rightarrow> int \<Rightarrow> json" where
  "item n sc ds t =
     JObj [(lit ''type'', JStr (lit ''story'')), (lit ''id'', JInt n),
           (lit ''title'', JStr (lit ''T'')), (lit ''score'', JInt sc),
           (lit ''by'', JStr (lit ''a'')), (lit ''time'', JInt t),
           (lit ''descendants'', JInt ds)]"

definition plain :: "int \<Rightarrow> int \<Rightarrow> int \<Rightarrow> int \<Rightarrow> story" where
  "plain n sc ds t =
     \<lparr> id' = JInt n, title = JStr (lit ''T''), url = JNull, score = sc,
       by' = JStr (lit ''a''), time = t, descendants = ds \<rparr>"

section \<open>Properties named in the specification\<close>

text \<open>\<open>int_accepts E v\<close>: \<^verbatim>\<open>int(v)\<close> returns. \<open>numeric_ok E d\<close>: it returns for each of the
  three values that \<^verbatim>\<open>get_item\<close> converts from the dict \<open>d\<close>.\<close>

definition int_accepts :: "env \<Rightarrow> json \<Rightarrow> bool" where
  "int_accepts E v = (case py_int E v of Inl e \<Rightarrow> False | Inr n \<Rightarrow> True)"

definition numeric_ok :: "env \<Rightarrow> (ustr \<times> json) list \<Rightarrow> bool" where
  "numeric_ok E d =
     (int_accepts E (py_or (dict_get d (lit ''score'')) (JInt 0)) \<and>
      int_accepts E (py_or (dict_get d (lit ''time'')) (JInt 0)) \<and>
      int_accepts E (py_or (dict_get d (lit ''descendants'')) (JInt 0)))"

text \<open>The invariants of the data model, in the specification's words: score and
  descendant count are non-negative, the title is a non-empty string.\<close>

definition nonempty_string :: "json \<Rightarrow> bool" where
  "nonempty_string v = (case v of JStr t \<Rightarrow> t \<noteq> [] | _ \<Rightarrow> False)"

definition story_invariant :: "story \<Rightarrow> bool" where
  "story_invariant s = (0 \<le> score s \<and> 0 \<le> descendants s \<and> nonempty_string (title s))"

text \<open>The ranking order in the specification's words: \<open>a\<close> ranks no lower than \<open>b\<close> when
  it has the higher score, or the same score and more comments, or the same score and
  comment count and is not older.\<close>

definition ranks_no_lower :: "story \<Rightarrow> story \<Rightarrow> bool" where
  "ranks_no_lower a b =
     (score b < score a \<or>
      (score b = score a \<and>
        (descendants b < descendants a \<or>
         (descendants b = descendants a \<and> time b \<le> time a))))"

text \<open>
  For the exports: \<open>py_enumerate xs i\<close> is \<^verbatim>\<open>enumerate(xs, i)\<close>; \<open>times_ok\<close> says that
  \<^verbatim>\<open>created_at_ist\<close> renders the time of every story, and \<open>the_time\<close> is the rendering;
  \<open>no_break\<close> says that a text holds neither a line feed nor a carriage return.
\<close>

fun py_enumerate :: "'a list \<Rightarrow> int \<Rightarrow> (int \<times> 'a) list" where
  "py_enumerate [] i = []"
| "py_enumerate (x # xs) i = (i, x) # py_enumerate xs (i + 1)"

definition renders :: "env \<Rightarrow> story \<Rightarrow> bool" where
  "renders E s = (case created_at_ist E s of Inl e \<Rightarrow> False | Inr c \<Rightarrow> True)"

definition times_ok :: "env \<Rightarrow> story list \<Rightarrow> bool" where
  "times_ok E stories = list_all (renders E) stories"

definition the_time :: "env \<Rightarrow> story \<Rightarrow> ustr" where
  "the_time E s = (case created_at_ist E s of Inl e \<Rightarrow> [] | Inr c \<Rightarrow> c)"

definition no_break :: "ustr \<Rightarrow> bool" where
  "no_break xs = (\<not> list_ex (\<lambda>c. c = 10 \<or> c = 13) xs)"

text \<open>\<open>fits\<close> says that a field is within the size that \<^verbatim>\<open>csv.reader\<close> accepts.\<close>

definition fits :: "ustr \<Rightarrow> bool" where
  "fits f = (length f \<le> field_size_limit)"

text \<open>The cells of the CSV file as the specification has them: the header names, and for
  the story of rank \<open>i\<close> its values as strings, numbers in decimal, a missing value empty.\<close>

definition header_cells :: "ustr list" where
  "header_cells = map lit
     [''rank'', ''id'', ''title'', ''score'', ''comments'', ''by'', ''created_ist'',
      ''hn_link'', ''url'']"

definition story_cells :: "env \<Rightarrow> int \<times> story \<Rightarrow> ustr list" where
  "story_cells E r =
     (case r of (i, s) \<Rightarrow>
        [str_int i, csv_cell E (id' s), csv_cell E (title s), str_int (score s),
         str_int (descendants s), csv_cell E (by' s), the_time E s, hn_link E s,
         (if truthy (url s) then csv_cell E (url s) else [])])"

text \<open>The Markdown item of rank \<open>i\<close>, as a line.\<close>

definition md_line :: "env \<Rightarrow> int \<times> story \<Rightarrow> ustr" where
  "md_line E r = (case r of (i, s) \<Rightarrow> md_item E i s (the_time E s) @ [10])"

text \<open>
  What the exports ask of the texts they write: \<open>cells_encode\<close> and \<open>items_encode\<close> say
  that no cell of the CSV rows and no Markdown item holds a surrogate, so that UTF-8
  encodes them; \<open>cells_fit\<close> says that every cell is within the reader's field size.
\<close>

definition cells_encode :: "env \<Rightarrow> story list \<Rightarrow> bool" where
  "cells_encode E stories =
     list_all (\<lambda>r. list_all utf8_ok (story_cells E r)) (py_enumerate stories 1)"

definition cells_fit :: "env \<Rightarrow> story list \<Rightarrow> bool" where
  "cells_fit E stories =
     list_all (\<lambda>r. list_all fits (story_cells E r)) (py_enumerate stories 1)"

definition items_encode :: "env \<Rightarrow> story list \<Rightarrow> bool" where
  "items_encode E stories = list_all (\<lambda>r. utf8_ok (md_line E r)) (py_enumerate stories 1)"

section \<open>Results about the even-number filters\<close>

lemma evens_in_order_filter: "evens_in_order ns = filter (\<lambda>n. n mod 2 = 0) ns"
  by (induction ns) simp_all

text \<open>
  C9. For every list of integers, \<open>find_even_numbers\<close> and \<open>identify_even_numbers\<close>
  compute the same function: each returns exactly the elements of the input whose
  remainder modulo 2 is 0, in their original order.
\<close>

theorem even_filters_agree:
  "find_even_numbers numbers = identify_even_numbers numbers \<and>
   find_even_numbers numbers = evens_in_order numbers \<and>
   identify_even_numbers numbers = evens_in_order numbers"
  by (simp add: find_even_numbers_def identify_even_numbers_def is_even_def
      evens_in_order_filter)

section \<open>Results about truncation\<close>

lemma human_trunc_short: "int (length S) \<le> L \<Longrightarrow> human_trunc (JStr S) L = Inr (JStr S)"
  by (cases "S = []") (simp_all add: human_trunc_def py_or_def)

lemma human_trunc_long:
  assumes "1 \<le> L" and "L < int (length S)"
  shows "human_trunc (JStr S) L = Inr (JStr (take (nat (L - 1)) S @ ELLIPSIS))"
proof -
  from assms have "S \<noteq> []" by auto
  with assms show ?thesis
    by (simp add: human_trunc_def py_or_def slice_to_def)
qed

text \<open>
  C4, as amended. For every string \<open>S\<close>, \<open>human_trunc\<close> returns \<open>S\<close> unchanged when its
  length is at most \<open>L\<close>; for every maximum length \<open>L\<close> of at least 1 it returns, for a longer
  string, the first \<open>L - 1\<close> characters of \<open>S\<close> followed by one ellipsis character, and its
  result is never longer than \<open>L\<close>.
\<close>

theorem human_trunc_string:
  "(int (length S) \<le> L \<longrightarrow> human_trunc (JStr S) L = Inr (JStr S)) \<and>
   (1 \<le> L \<longrightarrow> L < int (length S) \<longrightarrow>
      human_trunc (JStr S) L = Inr (JStr (take (nat (L - 1)) S @ ELLIPSIS))) \<and>
   (1 \<le> L \<longrightarrow> (\<exists>r. human_trunc (JStr S) L = Inr (JStr r) \<and> int (length r) \<le> L))"
proof (intro conjI impI)
  assume "int (length S) \<le> L"
  then show "human_trunc (JStr S) L = Inr (JStr S)"
    by (rule human_trunc_short)
next
  assume "1 \<le> L" and "L < int (length S)"
  then show "human_trunc (JStr S) L = Inr (JStr (take (nat (L - 1)) S @ ELLIPSIS))"
    by (rule human_trunc_long)
next
  assume L: "1 \<le> L"
  show "\<exists>r. human_trunc (JStr S) L = Inr (JStr r) \<and> int (length r) \<le> L"
  proof (cases "int (length S) \<le> L")
    case True
    with human_trunc_short [OF True] show ?thesis by simp
  next
    case False
    then have long: "L < int (length S)" by simp
    have "int (length (take (nat (L - 1)) S @ ELLIPSIS)) \<le> L"
      using L long by (simp add: ELLIPSIS_def)
    with human_trunc_long [OF L long] show ?thesis by simp
  qed
qed

theorem human_trunc_string_witness:
  "human_trunc (JStr (lit ''abcdef'')) 4 = Inr (JStr (lit ''abc'' @ ELLIPSIS)) \<and>
   human_trunc (JStr (lit ''abcd'')) 4 = Inr (JStr (lit ''abcd''))"
proof -
  have a: "(1::int) \<le> 4" by simp
  have b: "(4::int) < int (length (lit ''abcdef''))" by (simp add: lit_def)
  have c: "int (length (lit ''abcd'')) \<le> 4" by (simp add: lit_def)
  from human_trunc_string [of "lit ''abcdef''" 4] a b
  have "human_trunc (JStr (lit ''abcdef'')) 4 =
        Inr (JStr (take (nat (4 - 1)) (lit ''abcdef'') @ ELLIPSIS))"
    by blast
  moreover from human_trunc_string [of "lit ''abcd''" 4] c
  have "human_trunc (JStr (lit ''abcd'')) 4 = Inr (JStr (lit ''abcd''))" by blast
  ultimately show ?thesis by (simp add: lit_def)
qed

text \<open>
  With the maximum length 0 the slice \<^verbatim>\<open>s[:max_len - 1]\<close> has a negative bound and drops
  the last character only: \<^verbatim>\<open>human_trunc("abc", 0)\<close> is three characters long.
\<close>

theorem human_trunc_nonpositive_counterexample:
  "human_trunc (JStr (lit ''abc'')) 0 = Inr (JStr (lit ''ab'' @ ELLIPSIS)) \<and>
   \<not> int (length (lit ''ab'' @ ELLIPSIS)) \<le> 0"
  by (simp add: human_trunc_def py_or_def slice_to_def lit_def ELLIPSIS_def)

section \<open>Results about the story reader\<close>

lemma dict_get_absent: "map_of d k = None \<Longrightarrow> dict_get d k = JNull"
  by (simp add: dict_get_def)

lemma dict_get_present: "map_of d k = Some v \<Longrightarrow> dict_get d k = v"
  by (simp add: dict_get_def)

lemma py_or_absent [simp]: "py_or JNull b = b"
  by (simp add: py_or_def)

lemma py_or_truthy: "truthy a \<Longrightarrow> py_or a b = a"
  by (simp add: py_or_def)

lemma truthy_py_or: "truthy b \<Longrightarrow> truthy (py_or a b)"
  by (simp add: py_or_def)

lemma make_story_ok:
  assumes "numeric_ok E d"
  shows "\<exists>sc t ds.
           py_int E (py_or (dict_get d (lit ''score'')) (JInt 0)) = Inr sc \<and>
           py_int E (py_or (dict_get d (lit ''time'')) (JInt 0)) = Inr t \<and>
           py_int E (py_or (dict_get d (lit ''descendants'')) (JInt 0)) = Inr ds \<and>
           make_story E d =
             Inr \<lparr> id' = dict_get d (lit ''id''),
                   title = py_or (dict_get d (lit ''title'')) (JStr (lit ''(no title)'')),
                   url = dict_get d (lit ''url''),
                   score = sc,
                   by' = py_or (dict_get d (lit ''by'')) (JStr (lit ''unknown'')),
                   time = t,
                   descendants = ds \<rparr>"
  using assms
  by (auto simp: numeric_ok_def int_accepts_def make_story_def split: sum.splits)

lemma make_story_raises:
  assumes "\<not> numeric_ok E d"
  shows "\<exists>e. make_story E d = Inl e"
  using assms
  by (auto simp: numeric_ok_def int_accepts_def make_story_def split: sum.splits)

lemma make_story_returns:
  assumes "make_story E d = Inr s"
  shows "numeric_ok E d"
  using assms make_story_raises [of E d] by auto

lemma story_type_truthy:
  assumes "dict_get d (lit ''type'') = JStr (lit ''story'')"
  shows "d \<noteq> []"
  using assms by (auto simp: dict_get_def)

lemma get_item_record:
  assumes "fetch_json E (ITEM_ENDPOINT E i) = Some (JObj d)"
  shows "get_item E i =
           (if dict_get d (lit ''type'') \<noteq> JStr (lit ''story'') then Inr None
            else case make_story E d of Inl e \<Rightarrow> Inl e | Inr s \<Rightarrow> Inr (Some s))"
  using assms story_type_truthy [of d]
  by (auto simp: get_item_def dict_get_def)

lemma lab_net [simp]: "fetch_json (lab_env n) u = n u"
  by (simp add: fetch_json_def lab_env_def)

lemma serving_apply [simp]: "serving v u = Some v"
  by (simp add: serving_def)

lemma lab_cutoff [simp]: "cutoff_of (lab_env n) h = Inr 1000"
  by (simp add: lab_env_def)

lemma lab_int_of_str [simp]: "int_of_str (lab_env n) = (\<lambda>s. None)"
  by (simp add: lab_env_def)

text \<open>
  C3, as amended. For every fetched item record, \<open>get_item\<close> returns nothing when the
  fetch fails (or yields a false value) or when the record's declared type is not
  \<^verbatim>\<open>"story"\<close>. Otherwise, if \<^verbatim>\<open>int\<close> accepts the record's score, time and descendants, it
  returns a Story with the defaults applied: the title is \<^verbatim>\<open>"(no title)"\<close> and the author
  \<^verbatim>\<open>"unknown"\<close> when absent, score, time and descendant count are 0 when absent, and a
  value that is present and true is kept (converted by \<^verbatim>\<open>int\<close> for the three numbers). If
  \<^verbatim>\<open>int\<close> rejects one of the three, \<open>get_item\<close> raises instead of returning.
\<close>

theorem get_item_outcomes:
  "(fetch_json E (ITEM_ENDPOINT E i) = None \<longrightarrow> get_item E i = Inr None) \<and>
   (\<forall>v. fetch_json E (ITEM_ENDPOINT E i) = Some v \<longrightarrow> \<not> truthy v \<longrightarrow>
      get_item E i = Inr None) \<and>
   (\<forall>d. fetch_json E (ITEM_ENDPOINT E i) = Some (JObj d) \<longrightarrow>
      (dict_get d (lit ''type'') \<noteq> JStr (lit ''story'') \<longrightarrow> get_item E i = Inr None) \<and>
      (dict_get d (lit ''type'') = JStr (lit ''story'') \<longrightarrow> \<not> numeric_ok E d \<longrightarrow>
         (\<exists>e. get_item E i = Inl e)) \<and>
      (dict_get d (lit ''type'') = JStr (lit ''story'') \<longrightarrow> numeric_ok E d \<longrightarrow>
         (\<exists>s. get_item E i = Inr (Some s) \<and>
              id' s = dict_get d (lit ''id'') \<and>
              url s = dict_get d (lit ''url'') \<and>
              (map_of d (lit ''title'') = None \<longrightarrow> title s = JStr (lit ''(no title)'')) \<and>
              (map_of d (lit ''by'') = None \<longrightarrow> by' s = JStr (lit ''unknown'')) \<and>
              (map_of d (lit ''score'') = None \<longrightarrow> score s = 0) \<and>
              (map_of d (lit ''time'') = None \<longrightarrow> time s = 0) \<and>
              (map_of d (lit ''descendants'') = None \<longrightarrow> descendants s = 0) \<and>
              (\<forall>v. map_of d (lit ''title'') = Some v \<longrightarrow> truthy v \<longrightarrow> title s = v) \<and>
              (\<forall>v. map_of d (lit ''by'') = Some v \<longrightarrow> truthy v \<longrightarrow> by' s = v) \<and>
              (\<forall>v. map_of d (lit ''score'') = Some v \<longrightarrow> truthy v \<longrightarrow>
                   py_int E v = Inr (score s)) \<and>
              (\<forall>v. map_of d (lit ''time'') = Some v \<longrightarrow> truthy v \<longrightarrow>
                   py_int E v = Inr (time s)) \<and>
              (\<forall>v. map_of d (lit ''descendants'') = Some v \<longrightarrow> truthy v \<longrightarrow>
                   py_int E v = Inr (descendants s)))))"
proof (intro conjI allI impI)
  assume "fetch_json E (ITEM_ENDPOINT E i) = None"
  then show "get_item E i = Inr None" by (simp add: get_item_def)
next
  fix v assume "fetch_json E (ITEM_ENDPOINT E i) = Some v" and "\<not> truthy v"
  then show "get_item E i = Inr None" by (simp add: get_item_def)
next
  fix d assume "fetch_json E (ITEM_ENDPOINT E i) = Some (JObj d)"
    and "dict_get d (lit ''type'') \<noteq> JStr (lit ''story'')"
  then show "get_item E i = Inr None" by (simp add: get_item_record)
next
  fix d assume f: "fetch_json E (ITEM_ENDPOINT E i) = Some (JObj d)"
    and t: "dict_get d (lit ''type'') = JStr (lit ''story'')" and n: "\<not> numeric_ok E d"
  from make_story_raises [OF n] obtain e where "make_story E d = Inl e" ..
  with f t have "get_item E i = Inl e" by (simp add: get_item_record)
  then show "\<exists>e. get_item E i = Inl e" ..
next
  fix d assume f: "fetch_json E (ITEM_ENDPOINT E i) = Some (JObj d)"
    and t: "dict_get d (lit ''type'') = JStr (lit ''story'')" and n: "numeric_ok E d"
  from make_story_ok [OF n] obtain sc tm ds where
    sc: "py_int E (py_or (dict_get d (lit ''score'')) (JInt 0)) = Inr sc" and
    tm: "py_int E (py_or (dict_get d (lit ''time'')) (JInt 0)) = Inr tm" and
    ds: "py_int E (py_or (dict_get d (lit ''descendants'')) (JInt 0)) = Inr ds" and
    m: "make_story E d =
         Inr \<lparr> id' = dict_get d (lit ''id''),
               title = py_or (dict_get d (lit ''title'')) (JStr (lit ''(no title)'')),
               url = dict_get d (lit ''url''),
               score = sc,
               by' = py_or (dict_get d (lit ''by'')) (JStr (lit ''unknown'')),
               time = tm,
               descendants = ds \<rparr>"
    by blast
  let ?s = "\<lparr> id' = dict_get d (lit ''id''),
               title = py_or (dict_get d (lit ''title'')) (JStr (lit ''(no title)'')),
               url = dict_get d (lit ''url''),
               score = sc,
               by' = py_or (dict_get d (lit ''by'')) (JStr (lit ''unknown'')),
               time = tm,
               descendants = ds \<rparr>"
  from f t m have g: "get_item E i = Inr (Some ?s)" by (simp add: get_item_record)
  have absent: "\<And>k x. map_of d k = None \<Longrightarrow> py_int E (py_or (dict_get d k) (JInt 0)) = Inr x
      \<Longrightarrow> x = 0"
    by (simp add: dict_get_absent)
  have present: "\<And>k v x. map_of d k = Some v \<Longrightarrow> truthy v \<Longrightarrow>
      py_int E (py_or (dict_get d k) (JInt 0)) = Inr x \<Longrightarrow> py_int E v = Inr x"
    by (simp add: dict_get_present py_or_truthy)
  show "\<exists>s. get_item E i = Inr (Some s) \<and>
              id' s = dict_get d (lit ''id'') \<and>
              url s = dict_get d (lit ''url'') \<and>
              (map_of d (lit ''title'') = None \<longrightarrow> title s = JStr (lit ''(no title)'')) \<and>
              (map_of d (lit ''by'') = None \<longrightarrow> by' s = JStr (lit ''unknown'')) \<and>
              (map_of d (lit ''score'') = None \<longrightarrow> score s = 0) \<and>
              (map_of d (lit ''time'') = None \<longrightarrow> time s = 0) \<and>
              (map_of d (lit ''descendants'') = None \<longrightarrow> descendants s = 0) \<and>
              (\<forall>v. map_of d (lit ''title'') = Some v \<longrightarrow> truthy v \<longrightarrow> title s = v) \<and>
              (\<forall>v. map_of d (lit ''by'') = Some v \<longrightarrow> truthy v \<longrightarrow> by' s = v) \<and>
              (\<forall>v. map_of d (lit ''score'') = Some v \<longrightarrow> truthy v \<longrightarrow>
                   py_int E v = Inr (score s)) \<and>
              (\<forall>v. map_of d (lit ''time'') = Some v \<longrightarrow> truthy v \<longrightarrow>
                   py_int E v = Inr (time s)) \<and>
              (\<forall>v. map_of d (lit ''descendants'') = Some v \<longrightarrow> truthy v \<longrightarrow>
                   py_int E v = Inr (descendants s))"
  proof (intro exI [of _ ?s] conjI allI impI)
    show "get_item E i = Inr (Some ?s)" by (rule g)
  next
    assume "map_of d (lit ''score'') = None"
    from absent [OF this sc] show "score ?s = 0" by simp
  next
    assume "map_of d (lit ''time'') = None"
    from absent [OF this tm] show "time ?s = 0" by simp
  next
    assume "map_of d (lit ''descendants'') = None"
    from absent [OF this ds] show "descendants ?s = 0" by simp
  next
    fix v assume "map_of d (lit ''score'') = Some v" "truthy v"
    from present [OF this sc] show "py_int E v = Inr (score ?s)" by simp
  next
    fix v assume "map_of d (lit ''time'') = Some v" "truthy v"
    from present [OF this tm] show "py_int E v = Inr (time ?s)" by simp
  next
    fix v assume "map_of d (lit ''descendants'') = Some v" "truthy v"
    from present [OF this ds] show "py_int E v = Inr (descendants ?s)" by simp
  qed (simp_all add: dict_get_absent dict_get_present py_or_truthy)
qed

theorem get_item_outcomes_witness:
  "\<exists>s. get_item (lab_env (serving (JObj [(lit ''type'', JStr (lit ''story'')),
           (lit ''id'', JInt 7), (lit ''score'', JInt 3)]))) (JInt 7) = Inr (Some s) \<and>
        id' s = JInt 7 \<and> title s = JStr (lit ''(no title)'') \<and>
        by' s = JStr (lit ''unknown'') \<and> score s = 3 \<and> time s = 0 \<and> descendants s = 0"
proof -
  let ?d = "[(lit ''type'', JStr (lit ''story'')), (lit ''id'', JInt 7),
             (lit ''score'', JInt 3)]"
  let ?E = "lab_env (serving (JObj ?d))"
  have f: "fetch_json ?E (ITEM_ENDPOINT ?E (JInt 7)) = Some (JObj ?d)" by simp
  have t: "dict_get ?d (lit ''type'') = JStr (lit ''story'')"
    by (simp add: dict_get_def lit_def)
  have n: "numeric_ok ?E ?d"
    by (simp add: numeric_ok_def int_accepts_def dict_get_def lit_def py_or_def)
  have a: "map_of ?d (lit ''title'') = None" "map_of ?d (lit ''by'') = None"
    "map_of ?d (lit ''time'') = None" "map_of ?d (lit ''descendants'') = None"
    by (simp_all add: lit_def)
  have p: "map_of ?d (lit ''score'') = Some (JInt 3)" "truthy (JInt 3)"
    "dict_get ?d (lit ''id'') = JInt 7"
    by (simp_all add: lit_def dict_get_def)
  note T = get_item_outcomes [of ?E "JInt 7", THEN conjunct2, THEN conjunct2, rule_format,
      OF f, THEN conjunct2, THEN conjunct2, rule_format, OF t n]
  from T obtain s where g: "get_item ?E (JInt 7) = Inr (Some s)"
    and i: "id' s = dict_get ?d (lit ''id'')"
    and ti: "map_of ?d (lit ''title'') = None \<longrightarrow> title s = JStr (lit ''(no title)'')"
    and b: "map_of ?d (lit ''by'') = None \<longrightarrow> by' s = JStr (lit ''unknown'')"
    and tm: "map_of ?d (lit ''time'') = None \<longrightarrow> time s = 0"
    and ds: "map_of ?d (lit ''descendants'') = None \<longrightarrow> descendants s = 0"
    and sc: "\<forall>v. map_of ?d (lit ''score'') = Some v \<longrightarrow> truthy v \<longrightarrow>
               py_int ?E v = Inr (score s)"
    by (elim exE conjE)
  from sc p have "py_int ?E (JInt 3) = Inr (score s)" by blast
  then have "score s = 3" by simp
  moreover from ti a have "title s = JStr (lit ''(no title)'')" by blast
  moreover from b a have "by' s = JStr (lit ''unknown'')" by blast
  moreover from tm a have "time s = 0" by blast
  moreover from ds a have "descendants s = 0" by blast
  moreover from i p have "id' s = JInt 7" by simp
  ultimately show ?thesis using g by blast
qed

text \<open>
  A record of type story whose score is a list: \<^verbatim>\<open>int([1])\<close> raises TypeError, which
  nothing in \<open>get_item\<close> catches, so no Story is returned.
\<close>

theorem get_item_raises_counterexample:
  "get_item (lab_env (serving (JObj [(lit ''type'', JStr (lit ''story'')),
      (lit ''id'', JInt 1), (lit ''score'', JArr [JInt 1])]))) (JInt 1) = Inl TypeError"
  by (simp add: get_item_def make_story_def dict_get_def lit_def py_or_def)

lemma get_item_SomeD:
  assumes "get_item E i = Inr (Some s)"
  obtains d where "fetch_json E (ITEM_ENDPOINT E i) = Some (JObj d)"
    and "dict_get d (lit ''type'') = JStr (lit ''story'')"
    and "make_story E d = Inr s"
  using assms
  by (auto simp: get_item_def split: option.splits if_splits json.splits sum.splits)

lemma make_story_fields:
  assumes "make_story E d = Inr s"
  shows "id' s = dict_get d (lit ''id'')"
    and "url s = dict_get d (lit ''url'')"
    and "title s = py_or (dict_get d (lit ''title'')) (JStr (lit ''(no title)''))"
    and "by' s = py_or (dict_get d (lit ''by'')) (JStr (lit ''unknown''))"
    and "py_int E (py_or (dict_get d (lit ''score'')) (JInt 0)) = Inr (score s)"
    and "py_int E (py_or (dict_get d (lit ''time'')) (JInt 0)) = Inr (time s)"
    and "py_int E (py_or (dict_get d (lit ''descendants'')) (JInt 0)) = Inr (descendants s)"
  using assms by (auto simp: make_story_def split: sum.splits)

lemma get_item_bare:
  "get_item (lab_env (serving (JObj [(lit ''type'', JStr (lit ''story''))]))) (JInt 1)
   = Inr (Some \<lparr> id' = JNull, title = JStr (lit ''(no title)''), url = JNull, score = 0,
                  by' = JStr (lit ''unknown''), time = 0, descendants = 0 \<rparr>)"
  by (simp add: get_item_def make_story_def dict_get_def lit_def py_or_def serving_def)

lemma hn_link_None:
  "id' s = JNull \<Longrightarrow> hn_link E s = lit ''https://news.ycombinator.com/item?id=None''"
  by (simp add: hn_link_def HN_ITEM_URL_def lit_def)

text \<open>
  C10, as amended. There are successfully fetched records of declared type \<^verbatim>\<open>"story"\<close>
  without an \<^verbatim>\<open>id\<close> field for which \<open>get_item\<close> returns a Story, and for every such record
  the Story's identifier is \<^verbatim>\<open>None\<close> and its \<open>hn_link\<close> ends in \<^verbatim>\<open>id=None\<close>. The identifier
  and the URL are the two fields taken from the record without a default: title and
  author are never \<^verbatim>\<open>None\<close>, and the three numbers are integers.
\<close>

theorem missing_id_story:
  "(fetch_json E (ITEM_ENDPOINT E i) = Some (JObj d) \<longrightarrow>
    dict_get d (lit ''type'') = JStr (lit ''story'') \<longrightarrow> numeric_ok E d \<longrightarrow>
    map_of d (lit ''id'') = None \<longrightarrow>
      (\<exists>s. get_item E i = Inr (Some s) \<and> id' s = JNull \<and>
           hn_link E s = lit ''https://news.ycombinator.com/item?id=None'')) \<and>
   (get_item E i = Inr (Some s) \<longrightarrow>
      title s \<noteq> JNull \<and> by' s \<noteq> JNull \<and>
      (\<exists>d. fetch_json E (ITEM_ENDPOINT E i) = Some (JObj d) \<and>
           id' s = dict_get d (lit ''id'') \<and> url s = dict_get d (lit ''url''))) \<and>
   (\<exists>E i s. get_item E i = Inr (Some s) \<and> id' s = JNull \<and>
      hn_link E s = lit ''https://news.ycombinator.com/item?id=None'')"
proof (intro conjI impI)
  assume f: "fetch_json E (ITEM_ENDPOINT E i) = Some (JObj d)"
    and t: "dict_get d (lit ''type'') = JStr (lit ''story'')"
    and n: "numeric_ok E d" and a: "map_of d (lit ''id'') = None"
  from make_story_ok [OF n] obtain s where m: "make_story E d = Inr s" by blast
  from f t m have g: "get_item E i = Inr (Some s)" by (simp add: get_item_record)
  from make_story_fields(1) [OF m] a have "id' s = JNull" by (simp add: dict_get_absent)
  with g hn_link_None [of s E]
  show "\<exists>s. get_item E i = Inr (Some s) \<and> id' s = JNull \<and>
           hn_link E s = lit ''https://news.ycombinator.com/item?id=None''"
    by blast
next
  assume g: "get_item E i = Inr (Some s)"
  from g obtain d where f: "fetch_json E (ITEM_ENDPOINT E i) = Some (JObj d)"
    and m: "make_story E d = Inr s" by (rule get_item_SomeD)
  note fl = make_story_fields [OF m]
  have "truthy (title s)" "truthy (by' s)"
    using fl(3,4) by (simp_all add: truthy_py_or lit_def)
  then show "title s \<noteq> JNull" "by' s \<noteq> JNull" by auto
  from f fl(1,2) show "\<exists>d. fetch_json E (ITEM_ENDPOINT E i) = Some (JObj d) \<and>
           id' s = dict_get d (lit ''id'') \<and> url s = dict_get d (lit ''url'')"
    by blast
next
  let ?E = "lab_env (serving (JObj [(lit ''type'', JStr (lit ''story''))]))"
  let ?s = "\<lparr> id' = JNull, title = JStr (lit ''(no title)''), url = JNull, score = 0,
                  by' = JStr (lit ''unknown''), time = 0, descendants = 0 \<rparr>"
  have "get_item ?E (JInt 1) = Inr (Some ?s)" by (rule get_item_bare)
  moreover have "id' ?s = JNull" by simp
  moreover from this have "hn_link ?E ?s = lit ''https://news.ycombinator.com/item?id=None''"
    by (rule hn_link_None)
  ultimately show "\<exists>E i s. get_item E i = Inr (Some s) \<and> id' s = JNull \<and>
      hn_link E s = lit ''https://news.ycombinator.com/item?id=None''"
    by blast
qed

theorem missing_id_story_witness:
  "\<exists>s. get_item (lab_env (serving (JObj [(lit ''type'', JStr (lit ''story'')),
           (lit ''title'', JStr (lit ''t''))]))) (JInt 1) = Inr (Some s) \<and>
        id' s = JNull \<and>
        hn_link (lab_env (serving (JObj [(lit ''type'', JStr (lit ''story'')),
           (lit ''title'', JStr (lit ''t''))]))) s
          = lit ''https://news.ycombinator.com/item?id=None'' \<and>
        title s \<noteq> JNull \<and> by' s \<noteq> JNull"
proof -
  let ?d = "[(lit ''type'', JStr (lit ''story'')), (lit ''title'', JStr (lit ''t''))]"
  let ?E = "lab_env (serving (JObj ?d))"
  have f: "fetch_json ?E (ITEM_ENDPOINT ?E (JInt 1)) = Some (JObj ?d)"
    by (simp add: serving_def)
  have t: "dict_get ?d (lit ''type'') = JStr (lit ''story'')"
    by (simp add: dict_get_def lit_def)
  have n: "numeric_ok ?E ?d"
    by (simp add: numeric_ok_def int_accepts_def dict_get_def lit_def py_or_def)
  have a: "map_of ?d (lit ''id'') = None" by (simp add: lit_def)
  from missing_id_story [of ?E "JInt 1" ?d, THEN conjunct1, rule_format, OF f t n a]
  obtain s where g: "get_item ?E (JInt 1) = Inr (Some s)" and i: "id' s = JNull"
    and l: "hn_link ?E s = lit ''https://news.ycombinator.com/item?id=None''"
    by (elim exE conjE)
  from missing_id_story [of ?E "JInt 1" _ s, THEN conjunct2, THEN conjunct1, rule_format, OF g]
  have "title s \<noteq> JNull" "by' s \<noteq> JNull" by blast+
  with g i l show ?thesis by blast
qed

text \<open>
  The identifier is not the only field without a default: for a record that has
  neither \<^verbatim>\<open>id\<close> nor \<^verbatim>\<open>url\<close>, the Story's \<open>url\<close> is \<^verbatim>\<open>None\<close> as well.
\<close>

theorem url_without_default_counterexample:
  "get_item (lab_env (serving (JObj [(lit ''type'', JStr (lit ''story''))]))) (JInt 1)
   = Inr (Some \<lparr> id' = JNull, title = JStr (lit ''(no title)''), url = JNull, score = 0,
                  by' = JStr (lit ''unknown''), time = 0, descendants = 0 \<rparr>) \<and>
   url \<lparr> id' = JNull, title = JStr (lit ''(no title)''), url = JNull, score = 0,
                  by' = JStr (lit ''unknown''), time = 0, descendants = 0 \<rparr> = JNull"
  by (simp add: get_item_bare)

section \<open>Results about the collector\<close>

lemma set_slice_to: "set (slice_to k xs) \<subseteq> set xs"
  by (auto simp: slice_to_def dest: in_set_takeD)

lemma set_sort_reverse [simp]: "set (sort_reverse key xs) = set xs"
  by (simp add: sort_reverse_def)

lemma length_sort_reverse [simp]: "length (sort_reverse key xs) = length xs"
  by (simp add: sort_reverse_def)

lemma sorted_sort_reverse:
  "sorted_wrt (\<lambda>a b. key b \<le> key a) (sort_reverse key xs)"
proof -
  have "sorted (map key (sort_key key (rev xs)))" by (rule sorted_sort_key)
  then have "sorted_wrt (\<lambda>a b. key a \<le> key b) (sort_key key (rev xs))"
    by (simp add: sorted_wrt_map)
  then show ?thesis by (simp add: sort_reverse_def sorted_wrt_rev)
qed

lemma rank_top10_take: "rank_top10 recent = take 10 (sort_reverse rank_key recent)"
  by (simp add: rank_top10_def slice_to_def)

lemma sorted_rank_top10: "sorted_wrt (\<lambda>a b. rank_key b \<le> rank_key a) (rank_top10 recent)"
  unfolding rank_top10_take by (rule sorted_wrt_take) (rule sorted_sort_reverse)

lemma length_rank_top10: "length (rank_top10 recent) = min 10 (length recent)"
  by (simp add: rank_top10_take min.commute)

lemma set_rank_top10: "set (rank_top10 recent) \<subseteq> set recent"
  unfolding rank_top10_take using set_take_subset [of 10 "sort_reverse rank_key recent"] by simp

lemma pool_results_set:
  "pool_results rs = Inr stories \<Longrightarrow> set stories = {s. Inr (Some s) \<in> set rs}"
proof (induction rs arbitrary: stories rule: pool_results.induct)
  case 1
  then show ?case by simp
next
  case (2 e rs)
  then show ?case by simp
next
  case (3 rs)
  then show ?case by auto
next
  case (4 s rs)
  then show ?case by (auto split: sum.splits)
qed

lemma collect_top_new_cases:
  assumes "collect_top_new E limit window_hours = (Inr out, fetched)"
  shows "(slice_to limit (get_new_story_ids E) = [] \<and> out = [] \<and> fetched = []) \<or>
         (\<exists>stories cutoff_ts.
            pool_results (map (get_item E) (slice_to limit (get_new_story_ids E))) = Inr stories \<and>
            cutoff_of E window_hours = Inr cutoff_ts \<and>
            out = rank_top10 (window_filter cutoff_ts stories) \<and>
            fetched = map (ITEM_ENDPOINT E) (slice_to limit (get_new_story_ids E)))"
  using assms
  by (auto simp: collect_top_new_def Let_def split: if_splits sum.splits)

lemma digits_small: "n < 10 \<Longrightarrow> digits n = [48 + n]"
  by (simp add: digits.simps)

lemma str_int_small: "0 \<le> n \<Longrightarrow> n < 10 \<Longrightarrow> str_int n = [48 + nat n]"
  by (simp add: str_int_def digits_small)

lemma ranks_no_lower_key: "ranks_no_lower a b = (rank_key b \<le> rank_key a)"
  by (auto simp: ranks_no_lower_def rank_key_def)

lemma ranked_rank_top10: "sorted_wrt ranks_no_lower (rank_top10 recent)"
  using sorted_rank_top10 [of recent] by (simp add: ranks_no_lower_key [abs_def])

lemma lab_item_url: "0 \<le> n \<Longrightarrow> n < 10 \<Longrightarrow>
  ITEM_ENDPOINT (lab_env m) (JInt n) = API_BASE @ lit ''/item/'' @ [48 + nat n] @ lit ''.json''"
  by (simp add: ITEM_ENDPOINT_def str_int_small)

text \<open>
  C1. For every list of stories retained after filtering, the list that
  \<open>collect_top_new\<close> makes of it is sorted non-increasing by (score, comment count,
  creation timestamp), compared lexicographically, and has at most 10 elements; so has
  every list that \<open>collect_top_new\<close> returns. Stories with scores 50, 50, 30 and comment
  counts 5, 9, 100 of equal recency come out as 50/9, 50/5, 30/100.
\<close>

theorem collect_top_new_ranked:
  "sorted_wrt ranks_no_lower (rank_top10 recent) \<and>
   length (rank_top10 recent) \<le> 10 \<and>
   length (rank_top10 recent) = min 10 (length recent) \<and>
   set (rank_top10 recent) \<subseteq> set recent \<and>
   (collect_top_new E limit window_hours = (Inr out, fetched) \<longrightarrow>
      sorted_wrt ranks_no_lower out \<and> length out \<le> 10) \<and>
   rank_top10 [plain 1 50 5 t, plain 2 50 9 t, plain 3 30 100 t] =
     [plain 2 50 9 t, plain 1 50 5 t, plain 3 30 100 t]"
proof (intro conjI impI)
  show "sorted_wrt ranks_no_lower (rank_top10 recent)" by (rule ranked_rank_top10)
  show "length (rank_top10 recent) \<le> 10" by (simp add: length_rank_top10)
  show "length (rank_top10 recent) = min 10 (length recent)" by (rule length_rank_top10)
  show "set (rank_top10 recent) \<subseteq> set recent" by (rule set_rank_top10)
  show "rank_top10 [plain 1 50 5 t, plain 2 50 9 t, plain 3 30 100 t] =
     [plain 2 50 9 t, plain 1 50 5 t, plain 3 30 100 t]"
    by (simp add: rank_top10_def slice_to_def sort_reverse_def rank_key_def plain_def)
next
  assume "collect_top_new E limit window_hours = (Inr out, fetched)"
  from collect_top_new_cases [OF this]
  have "out = [] \<or> (\<exists>r. out = rank_top10 r)" by blast
  then show "sorted_wrt ranks_no_lower out" using ranked_rank_top10 by auto
  from \<open>out = [] \<or> (\<exists>r. out = rank_top10 r)\<close> show "length out \<le> 10"
    by (auto simp: length_rank_top10)
qed

lemma lab_scenario:
  "collect_top_new
     (lab_env (hn_net [(1, item 1 50 5 2000), (2, item 2 50 9 2000), (3, item 3 30 100 2000)]))
     400 24
   = (Inr [plain 2 50 9 2000, plain 1 50 5 2000, plain 3 30 100 2000],
      map (\<lambda>n. API_BASE @ lit ''/item/'' @ str_int n @ lit ''.json'') [1, 2, 3])"
  by (simp add: collect_top_new_def get_new_story_ids_def get_item_def fetch_json_def lab_env_def hn_net_def ITEM_ENDPOINT_def
      NEW_STORIES_ENDPOINT_def API_BASE_def lit_def str_int_small item_def plain_def
      make_story_def dict_get_def py_or_def slice_to_def window_filter_def rank_top10_def
      sort_reverse_def rank_key_def)

theorem collect_top_new_ranked_witness:
  "collect_top_new
     (lab_env (hn_net [(1, item 1 50 5 2000), (2, item 2 50 9 2000), (3, item 3 30 100 2000)]))
     400 24
   = (Inr [plain 2 50 9 2000, plain 1 50 5 2000, plain 3 30 100 2000],
      map (\<lambda>n. API_BASE @ lit ''/item/'' @ str_int n @ lit ''.json'') [1, 2, 3]) \<and>
   sorted_wrt ranks_no_lower [plain 2 50 9 2000, plain 1 50 5 2000, plain 3 30 100 2000] \<and>
   length [plain 2 50 9 2000, plain 1 50 5 2000, plain 3 30 100 2000] \<le> 10"
proof -
  note h = lab_scenario
  from collect_top_new_ranked [THEN conjunct2, THEN conjunct2, THEN conjunct2, THEN conjunct2,
      THEN conjunct1, rule_format, OF h]
  show ?thesis using h by blast
qed

text \<open>
  C2. The window filter keeps exactly the stories whose creation timestamp is at least
  the cutoff, as often as they occur: a story created at the cutoff second is kept, one
  created a second earlier is dropped. When the collector has identifiers to fetch and
  returns, its result is the ranking of what the filter keeps at the cutoff that the
  clock gives for \<open>window_hours\<close>.
\<close>

theorem window_filter_inclusive:
  "set (window_filter cutoff_ts stories) = {s \<in> set stories. cutoff_ts \<le> time s} \<and>
   (\<forall>s. count_list (window_filter cutoff_ts stories) s =
         (if cutoff_ts \<le> time s then count_list stories s else 0)) \<and>
   (\<forall>s \<in> set stories. time s = cutoff_ts \<longrightarrow> s \<in> set (window_filter cutoff_ts stories)) \<and>
   (\<forall>s. time s = cutoff_ts - 1 \<longrightarrow> s \<notin> set (window_filter cutoff_ts stories)) \<and>
   (collect_top_new E limit window_hours = (Inr out, fetched) \<longrightarrow>
      slice_to limit (get_new_story_ids E) \<noteq> [] \<longrightarrow>
      (\<exists>fetched_stories c.
         pool_results (map (get_item E) (slice_to limit (get_new_story_ids E))) = Inr fetched_stories \<and>
         cutoff_of E window_hours = Inr c \<and>
         out = rank_top10 (window_filter c fetched_stories) \<and>
         (\<forall>s \<in> set out. c \<le> time s)))"
proof (intro conjI allI ballI impI)
  show "set (window_filter cutoff_ts stories) = {s \<in> set stories. cutoff_ts \<le> time s}"
    by (auto simp: window_filter_def)
  show "count_list (window_filter cutoff_ts stories) s =
         (if cutoff_ts \<le> time s then count_list stories s else 0)" for s
    unfolding window_filter_def by (induction stories) auto
  show "s \<in> set (window_filter cutoff_ts stories)"
    if "s \<in> set stories" "time s = cutoff_ts" for s
    using that by (simp add: window_filter_def)
  show "s \<notin> set (window_filter cutoff_ts stories)" if "time s = cutoff_ts - 1" for s
    using that by (simp add: window_filter_def)
next
  assume c: "collect_top_new E limit window_hours = (Inr out, fetched)"
    and n: "slice_to limit (get_new_story_ids E) \<noteq> []"
  from collect_top_new_cases [OF c] n obtain fs ct where
    p: "pool_results (map (get_item E) (slice_to limit (get_new_story_ids E))) = Inr fs" and
    k: "cutoff_of E window_hours = Inr ct" and o: "out = rank_top10 (window_filter ct fs)"
    by blast
  have "\<forall>s \<in> set out. ct \<le> time s"
    using set_rank_top10 [of "window_filter ct fs"] o by (auto simp: window_filter_def)
  with p k o show "\<exists>fetched_stories c.
         pool_results (map (get_item E) (slice_to limit (get_new_story_ids E))) = Inr fetched_stories \<and>
         cutoff_of E window_hours = Inr c \<and>
         out = rank_top10 (window_filter c fetched_stories) \<and>
         (\<forall>s \<in> set out. c \<le> time s)" by blast
qed

lemma lab_boundary:
  "collect_top_new (lab_env (hn_net [(1, item 1 10 0 1000), (2, item 2 20 0 999)])) 400 24
   = (Inr [plain 1 10 0 1000],
      map (\<lambda>n. API_BASE @ lit ''/item/'' @ str_int n @ lit ''.json'') [1, 2])"
  by (simp add: collect_top_new_def get_new_story_ids_def get_item_def fetch_json_def lab_env_def
      hn_net_def ITEM_ENDPOINT_def NEW_STORIES_ENDPOINT_def API_BASE_def lit_def str_int_small
      item_def plain_def make_story_def dict_get_def py_or_def slice_to_def window_filter_def
      rank_top10_def sort_reverse_def rank_key_def)

lemma lab_boundary_ids:
  "slice_to 400 (get_new_story_ids (lab_env (hn_net [(1, item 1 10 0 1000), (2, item 2 20 0 999)])))
   = [JInt 1, JInt 2]"
  by (simp add: get_new_story_ids_def fetch_json_def lab_env_def hn_net_def slice_to_def)

theorem window_filter_inclusive_witness:
  "plain 1 10 0 1000 \<in> set (window_filter 1000 [plain 1 10 0 1000, plain 2 20 0 999]) \<and>
   plain 2 20 0 999 \<notin> set (window_filter 1000 [plain 1 10 0 1000, plain 2 20 0 999]) \<and>
   collect_top_new (lab_env (hn_net [(1, item 1 10 0 1000), (2, item 2 20 0 999)])) 400 24
   = (Inr [plain 1 10 0 1000],
      map (\<lambda>n. API_BASE @ lit ''/item/'' @ str_int n @ lit ''.json'') [1, 2]) \<and>
   (\<exists>fetched_stories.
      [plain 1 10 0 1000] = rank_top10 (window_filter 1000 fetched_stories))"
proof -
  let ?E = "lab_env (hn_net [(1, item 1 10 0 1000), (2, item 2 20 0 999)])"
  note T = window_filter_inclusive [of 1000 "[plain 1 10 0 1000, plain 2 20 0 999]" ?E 400 24]
  have a: "plain 1 10 0 1000 \<in> set [plain 1 10 0 1000, plain 2 20 0 999]" by simp
  have b: "time (plain 1 10 0 1000) = 1000" by (simp add: plain_def)
  have c: "time (plain 2 20 0 999) = 1000 - 1" by (simp add: plain_def)
  have n: "slice_to 400 (get_new_story_ids ?E) \<noteq> []" by (simp add: lab_boundary_ids)
  from T [THEN conjunct2, THEN conjunct2, THEN conjunct2, THEN conjunct2, rule_format,
      OF lab_boundary n]
  obtain fs k where "cutoff_of ?E 24 = Inr k"
    and "[plain 1 10 0 1000] = rank_top10 (window_filter k fs)"
    by blast
  then have "\<exists>fetched_stories.
      [plain 1 10 0 1000] = rank_top10 (window_filter 1000 fetched_stories)"
    by auto
  with T [THEN conjunct2, THEN conjunct2, THEN conjunct1, rule_format, OF a b]
    T [THEN conjunct2, THEN conjunct2, THEN conjunct2, THEN conjunct1, rule_format, OF c]
    lab_boundary
  show ?thesis by simp
qed

lemma writerow_header:
  "writerow E csv_header =
     lit ''rank,id,title,score,comments,by,created_ist,hn_link,url'' @ [13, 10]"
  by (simp add: writerow_def csv_record_def csv_header_def csv_field_def csv_cell_def
      csv_special_def lit_def)

lemma file_write_header:
  "file_write (writerow E csv_header) =
     Inr (lit ''rank,id,title,score,comments,by,created_ist,hn_link,url'' @ [13, 10])"
  unfolding writerow_header by (simp add: file_write_def utf8_ok_def lit_def)

lemma file_write_heading: "file_write md_heading = Inr md_heading"
  by (simp add: file_write_def utf8_ok_def md_heading_def lit_def)

text \<open>
  C8. When the ID lister returns an empty sequence, the collector returns the empty
  list and hands no item URL to the pool. For an empty story list the table presenter
  prints the one line of the no-stories notice, \<open>write_csv\<close> writes the header row only
  and \<open>write_md\<close> the heading only.
\<close>

theorem empty_run:
  "(get_new_story_ids E = [] \<longrightarrow> collect_top_new E limit window_hours = (Inr [], [])) \<and>
   print_table E [] = Inr [lit ''No stories found in the specified window.''] \<and>
   write_csv E [] =
     (lit ''rank,id,title,score,comments,by,created_ist,hn_link,url'' @ [13, 10], None) \<and>
   write_md E [] = (lit ''# Top 10 New Hacker News (last 24h, IST)'' @ [10, 10], None)"
  by (simp add: collect_top_new_def slice_to_def print_table_def write_csv_def
      file_write_header write_md_def file_write_heading) (simp add: md_heading_def)

theorem empty_run_witness:
  "get_new_story_ids (lab_env offline) = [] \<and>
   collect_top_new (lab_env offline) 400 24 = (Inr [], [])"
proof -
  have h: "get_new_story_ids (lab_env offline) = []"
    by (simp add: get_new_story_ids_def offline_def)
  from empty_run [of "lab_env offline" 400 24, THEN conjunct1, rule_format, OF h] h
  show ?thesis by simp
qed

lemma collect_top_new_constructed:
  assumes "collect_top_new E limit window_hours = (Inr out, fetched)" and "s \<in> set out"
  shows "\<exists>i \<in> set (get_new_story_ids E). get_item E i = Inr (Some s)"
proof -
  from collect_top_new_cases [OF assms(1)] assms(2) obtain fs ct where
    p: "pool_results (map (get_item E) (slice_to limit (get_new_story_ids E))) = Inr fs" and
    o: "out = rank_top10 (window_filter ct fs)"
    by auto
  from o assms(2) set_rank_top10 [of "window_filter ct fs"] have "s \<in> set fs"
    by (auto simp: window_filter_def)
  with pool_results_set [OF p] have "Inr (Some s) \<in> set (map (get_item E) (slice_to limit (get_new_story_ids E)))"
    by simp
  then obtain i where "i \<in> set (slice_to limit (get_new_story_ids E))" "get_item E i = Inr (Some s)"
    by auto
  with set_slice_to [of limit "get_new_story_ids E"] show ?thesis by auto
qed

text \<open>
  C5, as amended. A Story that \<open>get_item\<close> constructs has a title that is true, hence
  never empty (when it is a string it is a non-empty one); its identifier is the value the
  record holds under \<^verbatim>\<open>id\<close>; its score and descendant count are what \<^verbatim>\<open>int\<close> makes of the
  record's values (0 for a missing or false one), of either sign. The collector returns
  constructed stories as they are: each story of its result is a Story that \<open>get_item\<close>
  returned for one of the listed identifiers.
\<close>

theorem constructed_story_facts:
  "(get_item E i = Inr (Some s) \<longrightarrow>
      truthy (title s) \<and> (\<forall>t. title s = JStr t \<longrightarrow> t \<noteq> []) \<and>
      (\<exists>d. fetch_json E (ITEM_ENDPOINT E i) = Some (JObj d) \<and>
           id' s = dict_get d (lit ''id'') \<and>
           py_int E (py_or (dict_get d (lit ''score'')) (JInt 0)) = Inr (score s) \<and>
           py_int E (py_or (dict_get d (lit ''descendants'')) (JInt 0)) = Inr (descendants s))) \<and>
   (collect_top_new E limit window_hours = (Inr out, fetched) \<longrightarrow>
      (\<forall>s' \<in> set out. \<exists>j \<in> set (get_new_story_ids E). get_item E j = Inr (Some s')))"
proof (intro conjI impI ballI)
  assume g: "get_item E i = Inr (Some s)"
  from g obtain d where f: "fetch_json E (ITEM_ENDPOINT E i) = Some (JObj d)"
    and m: "make_story E d = Inr s" by (rule get_item_SomeD)
  note fl = make_story_fields [OF m]
  from fl(3) show t: "truthy (title s)" by (simp add: truthy_py_or lit_def)
  from t show "\<forall>t. title s = JStr t \<longrightarrow> t \<noteq> []" by auto
  from f fl show "\<exists>d. fetch_json E (ITEM_ENDPOINT E i) = Some (JObj d) \<and>
           id' s = dict_get d (lit ''id'') \<and>
           py_int E (py_or (dict_get d (lit ''score'')) (JInt 0)) = Inr (score s) \<and>
           py_int E (py_or (dict_get d (lit ''descendants'')) (JInt 0)) = Inr (descendants s)"
    by blast
next
  fix s' assume "collect_top_new E limit window_hours = (Inr out, fetched)" "s' \<in> set out"
  then show "\<exists>j \<in> set (get_new_story_ids E). get_item E j = Inr (Some s')"
    by (rule collect_top_new_constructed)
qed

lemma get_item_negative:
  "get_item (lab_env (serving (JObj [(lit ''type'', JStr (lit ''story'')), (lit ''id'', JInt 1),
       (lit ''title'', JStr (lit ''t'')), (lit ''score'', JInt (- 5))]))) (JInt 1)
   = Inr (Some \<lparr> id' = JInt 1, title = JStr (lit ''t''), url = JNull, score = - 5,
                  by' = JStr (lit ''unknown''), time = 0, descendants = 0 \<rparr>)"
  by (simp add: get_item_def make_story_def dict_get_def lit_def py_or_def serving_def)

theorem constructed_story_facts_witness:
  "get_item (lab_env (serving (JObj [(lit ''type'', JStr (lit ''story'')), (lit ''id'', JInt 1),
       (lit ''title'', JStr (lit ''t'')), (lit ''score'', JInt (- 5))]))) (JInt 1)
   = Inr (Some \<lparr> id' = JInt 1, title = JStr (lit ''t''), url = JNull, score = - 5,
                  by' = JStr (lit ''unknown''), time = 0, descendants = 0 \<rparr>) \<and>
   truthy (title \<lparr> id' = JInt 1, title = JStr (lit ''t''), url = JNull, score = - 5,
                  by' = JStr (lit ''unknown''), time = 0, descendants = 0 \<rparr>) \<and>
   (\<exists>j \<in> set (get_new_story_ids
        (lab_env (hn_net [(1, item 1 50 5 2000), (2, item 2 50 9 2000), (3, item 3 30 100 2000)]))).
      get_item (lab_env (hn_net [(1, item 1 50 5 2000), (2, item 2 50 9 2000),
        (3, item 3 30 100 2000)])) j = Inr (Some (plain 2 50 9 2000)))"
proof -
  note h = get_item_negative
  let ?E = "lab_env (hn_net [(1, item 1 50 5 2000), (2, item 2 50 9 2000),
        (3, item 3 30 100 2000)])"
  have m: "plain 2 50 9 2000 \<in> set [plain 2 50 9 2000, plain 1 50 5 2000, plain 3 30 100 2000]"
    by simp
  from constructed_story_facts [of ?E _ _ 400 24, THEN conjunct2, rule_format, OF lab_scenario m]
  have "\<exists>j \<in> set (get_new_story_ids ?E). get_item ?E j = Inr (Some (plain 2 50 9 2000))" .
  with constructed_story_facts [THEN conjunct1, rule_format, OF h, THEN conjunct1] h
  show ?thesis by blast
qed

text \<open>
  Nothing makes the numbers non-negative: a record with the score -5 gives a Story with
  the score -5.
\<close>

theorem negative_score_counterexample:
  "get_item (lab_env (serving (JObj [(lit ''type'', JStr (lit ''story'')), (lit ''id'', JInt 1),
       (lit ''title'', JStr (lit ''t'')), (lit ''score'', JInt (- 5))]))) (JInt 1)
   = Inr (Some \<lparr> id' = JInt 1, title = JStr (lit ''t''), url = JNull, score = - 5,
                  by' = JStr (lit ''unknown''), time = 0, descendants = 0 \<rparr>) \<and>
   \<not> story_invariant \<lparr> id' = JInt 1, title = JStr (lit ''t''), url = JNull, score = - 5,
                  by' = JStr (lit ''unknown''), time = 0, descendants = 0 \<rparr>"
  by (simp add: get_item_negative story_invariant_def)

section \<open>Results about reading a CSV file back\<close>

subsection \<open>The two readings agree\<close>

lemma split_lines_events:
  "concat (map (\<lambda>l. map Some l @ [None]) (split_lines cur inp)) =
     (if inp = [] then (if cur = [] then [] else map Some cur @ [None])
      else map Some cur @ line_events inp)"
  by (induction cur inp rule: split_lines.induct) (auto simp: ends_line_def)

lemma readlines_events:
  "concat (map (\<lambda>l. map Some l @ [None]) (readlines text)) = line_events text"
  by (simp add: readlines_def split_lines_events)

declare parse_process_char.simps [simp del]

lemma reader_events_feed:
  "reader_events p (map Some l @ es) =
     (case feed p (map Some l) of Inl x \<Rightarrow> Inl x | Inr q \<Rightarrow> reader_events q es)"
  by (induction l arbitrary: p) (auto split: sum.splits)

lemma feed_append:
  "feed p (xs @ ys) = (case feed p xs of Inl x \<Rightarrow> Inl x | Inr q \<Rightarrow> feed q ys)"
  by (induction xs arbitrary: p) (auto split: sum.splits)

lemma reader_loop_events:
  "reader_loop p ls = reader_events p (concat (map (\<lambda>l. map Some l @ [None]) ls))"
proof (induction ls arbitrary: p)
  case Nil
  show ?case by simp
next
  case (Cons l ls)
  show ?case
    by (simp add: feed_line_def feed_append reader_events_feed Cons.IH split: sum.splits)
qed

lemma csv_reader_events: "csv_reader text = reader_events parse_reset (line_events text)"
  by (simp add: csv_reader_def reader_loop_events readlines_events)

subsection \<open>Steps of the machine\<close>

lemma step_in_quoted:
  "parse_process_char \<lparr>state = IN_QUOTED_FIELD, field_buf = b, field_list = fl\<rparr> None
     = Inr \<lparr>state = IN_QUOTED_FIELD, field_buf = b, field_list = fl\<rparr>"
  "c \<noteq> 34 \<Longrightarrow> length b < field_size_limit \<Longrightarrow>
   parse_process_char \<lparr>state = IN_QUOTED_FIELD, field_buf = b, field_list = fl\<rparr> (Some c)
     = Inr \<lparr>state = IN_QUOTED_FIELD, field_buf = b @ [c], field_list = fl\<rparr>"
  "parse_process_char \<lparr>state = IN_QUOTED_FIELD, field_buf = b, field_list = fl\<rparr> (Some 34)
     = Inr \<lparr>state = QUOTE_IN_QUOTED_FIELD, field_buf = b, field_list = fl\<rparr>"
  by (simp_all add: parse_process_char.simps parse_add_char_def)

lemma step_quote_in_quoted:
  "length b < field_size_limit \<Longrightarrow>
   parse_process_char \<lparr>state = QUOTE_IN_QUOTED_FIELD, field_buf = b, field_list = fl\<rparr> (Some 34)
     = Inr \<lparr>state = IN_QUOTED_FIELD, field_buf = b @ [34], field_list = fl\<rparr>"
  "parse_process_char \<lparr>state = QUOTE_IN_QUOTED_FIELD, field_buf = b, field_list = fl\<rparr> (Some 44)
     = Inr \<lparr>state = START_FIELD, field_buf = [], field_list = fl @ [b]\<rparr>"
  "parse_process_char \<lparr>state = QUOTE_IN_QUOTED_FIELD, field_buf = b, field_list = fl\<rparr> (Some 13)
     = Inr \<lparr>state = EAT_CRNL, field_buf = [], field_list = fl @ [b]\<rparr>"
  by (simp_all add: parse_process_char.simps parse_add_char_def then_state_def
      parse_save_field_def is_crnl_def after_eol_def)

lemma step_in_field:
  "\<not> csv_special c \<Longrightarrow> length b < field_size_limit \<Longrightarrow>
   parse_process_char \<lparr>state = IN_FIELD, field_buf = b, field_list = fl\<rparr> (Some c)
     = Inr \<lparr>state = IN_FIELD, field_buf = b @ [c], field_list = fl\<rparr>"
  "parse_process_char \<lparr>state = IN_FIELD, field_buf = b, field_list = fl\<rparr> (Some 44)
     = Inr \<lparr>state = START_FIELD, field_buf = [], field_list = fl @ [b]\<rparr>"
  "parse_process_char \<lparr>state = IN_FIELD, field_buf = b, field_list = fl\<rparr> (Some 13)
     = Inr \<lparr>state = EAT_CRNL, field_buf = [], field_list = fl @ [b]\<rparr>"
  by (simp_all add: parse_process_char.simps parse_add_char_def parse_save_field_def
      is_crnl_def after_eol_def csv_special_def)

lemma step_over_limit:
  "\<not> csv_special c \<Longrightarrow> field_size_limit \<le> length b \<Longrightarrow>
   parse_process_char \<lparr>state = IN_FIELD, field_buf = b, field_list = fl\<rparr> (Some c)
     = Inl CsvError"
  by (simp add: parse_process_char.simps parse_add_char_def is_crnl_def csv_special_def)

lemma step_start:
  assumes "st = START_RECORD \<or> st = START_FIELD"
  shows "\<not> csv_special c \<Longrightarrow> length b < field_size_limit \<Longrightarrow>
   parse_process_char \<lparr>state = st, field_buf = b, field_list = fl\<rparr> (Some c)
     = Inr \<lparr>state = IN_FIELD, field_buf = b @ [c], field_list = fl\<rparr>"
  and "parse_process_char \<lparr>state = st, field_buf = b, field_list = fl\<rparr> (Some 34)
     = Inr \<lparr>state = IN_QUOTED_FIELD, field_buf = b, field_list = fl\<rparr>"
  and "parse_process_char \<lparr>state = st, field_buf = b, field_list = fl\<rparr> (Some 44)
     = Inr \<lparr>state = START_FIELD, field_buf = [], field_list = fl @ [b]\<rparr>"
  using assms
  by (auto simp: parse_process_char.simps parse_add_char_def then_state_def
      parse_save_field_def is_crnl_def after_eol_def csv_special_def start_field_def)

lemma step_start_field_cr:
  "parse_process_char \<lparr>state = START_FIELD, field_buf = b, field_list = fl\<rparr> (Some 13)
     = Inr \<lparr>state = EAT_CRNL, field_buf = [], field_list = fl @ [b]\<rparr>"
  by (simp add: parse_process_char.simps parse_save_field_def is_crnl_def after_eol_def
      start_field_def)

lemma step_start_record_cr:
  "parse_process_char \<lparr>state = START_RECORD, field_buf = b, field_list = fl\<rparr> (Some 13)
     = Inr \<lparr>state = EAT_CRNL, field_buf = b, field_list = fl\<rparr>"
  by (simp add: parse_process_char.simps is_crnl_def)

lemma step_eat_crnl:
  "parse_process_char \<lparr>state = EAT_CRNL, field_buf = b, field_list = fl\<rparr> (Some 10)
     = Inr \<lparr>state = EAT_CRNL, field_buf = b, field_list = fl\<rparr>"
  "parse_process_char \<lparr>state = EAT_CRNL, field_buf = b, field_list = fl\<rparr> None
     = Inr \<lparr>state = START_RECORD, field_buf = b, field_list = fl\<rparr>"
  by (simp_all add: parse_process_char.simps is_crnl_def)

text \<open>The end of a record: CR, LF and the end-of-line mark, from a state that has saved
  its fields.\<close>

lemma line_events_crlf:
  "line_events (13 # 10 # rest) = Some 13 # Some 10 # None # line_events rest"
  by (simp add: ends_line_def)

lemma eat_crnl_record:
  "reader_events \<lparr>state = EAT_CRNL, field_buf = [], field_list = fl\<rparr>
     (Some 10 # None # es)
   = (case reader_events parse_reset es of Inl x \<Rightarrow> Inl x | Inr rows \<Rightarrow> Inr (fl # rows))"
  by (simp add: step_eat_crnl split: sum.splits)

lemma quoted_content:
  assumes "t \<noteq> []"
  shows "length b + length q \<le> field_size_limit \<Longrightarrow>
         reader_events \<lparr>state = IN_QUOTED_FIELD, field_buf = b, field_list = fl\<rparr>
           (line_events (concat (map (\<lambda>c. if c = 34 then [34, 34] else [c]) q) @ 34 # t))
         = reader_events \<lparr>state = QUOTE_IN_QUOTED_FIELD, field_buf = b @ q, field_list = fl\<rparr>
           (line_events t)"
proof (induction q arbitrary: b)
  case Nil
  from assms show ?case by (simp add: ends_line_def step_in_quoted)
next
  case (Cons c q)
  then have lt: "length b < field_size_limit"
    and le: "length (b @ [c]) + length q \<le> field_size_limit" by simp_all
  show ?case
  proof (cases "c = 34")
    case True
    then show ?thesis
      using Cons.IH [of "b @ [34]"] lt le
      by (simp add: ends_line_def step_in_quoted step_quote_in_quoted)
  next
    case False
    then show ?thesis
      using Cons.IH [of "b @ [c]"] lt le
      by (simp add: step_in_quoted)
  qed
qed

lemma unquoted_content:
  assumes "\<not> list_ex csv_special f" and "t \<noteq> []"
    and "length b + length f \<le> field_size_limit"
  shows "reader_events \<lparr>state = IN_FIELD, field_buf = b, field_list = fl\<rparr>
           (line_events (f @ t))
         = reader_events \<lparr>state = IN_FIELD, field_buf = b @ f, field_list = fl\<rparr>
           (line_events t)"
  using assms
proof (induction f arbitrary: b)
  case Nil
  then show ?case by simp
next
  case (Cons c f)
  then have c: "\<not> csv_special c" and f: "\<not> list_ex csv_special f"
    and lt: "length b < field_size_limit"
    and le: "length (b @ [c]) + length f \<le> field_size_limit" by simp_all
  from c have "\<not> ends_line c (f @ t)"
    using \<open>t \<noteq> []\<close> by (auto simp: ends_line_def csv_special_def)
  with c lt Cons.IH [OF f \<open>t \<noteq> []\<close> le] show ?case
    by (simp add: step_in_field)
qed

text \<open>An unquoted field that outgrows the limit ends the reading.\<close>

lemma unquoted_over_limit:
  assumes "\<not> list_ex csv_special f" and "t \<noteq> []"
    and "length b \<le> field_size_limit" and "field_size_limit < length b + length f"
  shows "reader_events \<lparr>state = IN_FIELD, field_buf = b, field_list = fl\<rparr>
           (line_events (f @ t)) = Inl CsvError"
  using assms
proof (induction f arbitrary: b)
  case Nil
  then show ?case by simp
next
  case (Cons c f)
  then have c: "\<not> csv_special c" and f: "\<not> list_ex csv_special f" by simp_all
  from c have e: "\<not> ends_line c (f @ t)"
    using \<open>t \<noteq> []\<close> by (auto simp: ends_line_def csv_special_def)
  show ?case
  proof (cases "length b < field_size_limit")
    case True
    with Cons.prems have "length (b @ [c]) \<le> field_size_limit"
      and "field_size_limit < length (b @ [c]) + length f" by simp_all
    from Cons.IH [OF f \<open>t \<noteq> []\<close> this] c e True show ?thesis
      by (simp add: step_in_field)
  next
    case False
    then have "field_size_limit \<le> length b" by simp
    with c show ?thesis by (simp add: step_over_limit)
  qed
qed

lemma ends_line_simps:
  "t \<noteq> [] \<Longrightarrow> ends_line 44 t = False"
  "t \<noteq> [] \<Longrightarrow> ends_line 34 t = False"
  "ends_line 13 (10 # t) = False"
  "ends_line 10 t = True"
  by (simp_all add: ends_line_def)

lemma ends_line_plain: "\<not> csv_special c \<Longrightarrow> t \<noteq> [] \<Longrightarrow> ends_line c t = False"
  by (auto simp: ends_line_def csv_special_def)

lemma field_comma:
  assumes st: "st = START_RECORD \<or> st = START_FIELD" and t: "t \<noteq> []" and fit: "fits f"
  shows "reader_events \<lparr>state = st, field_buf = [], field_list = fl\<rparr>
           (line_events (csv_field f @ 44 # t))
         = reader_events \<lparr>state = START_FIELD, field_buf = [], field_list = fl @ [f]\<rparr>
           (line_events t)"
proof (cases "list_ex csv_special f")
  case True
  from fit have "length ([] :: ustr) + length f \<le> field_size_limit" by (simp add: fits_def)
  from quoted_content [OF _ this, of "44 # t" fl]
  have "reader_events \<lparr>state = IN_QUOTED_FIELD, field_buf = [], field_list = fl\<rparr>
          (line_events (concat (map (\<lambda>c. if c = 34 then [34, 34] else [c]) f) @ 34 # 44 # t))
        = reader_events \<lparr>state = QUOTE_IN_QUOTED_FIELD, field_buf = [] @ f, field_list = fl\<rparr>
          (line_events (44 # t))"
    by simp
  with True t show ?thesis
    by (simp add: csv_field_def ends_line_simps step_start [OF st] step_quote_in_quoted)
next
  case False
  show ?thesis
  proof (cases f)
    case Nil
    with t show ?thesis
      by (simp add: csv_field_def ends_line_simps step_start [OF st])
  next
    case (Cons c f')
    with False have c: "\<not> csv_special c" and f': "\<not> list_ex csv_special f'" by simp_all
    from fit Cons have lt: "length ([] :: ustr) < field_size_limit"
      and le: "length [c] + length f' \<le> field_size_limit" by (simp_all add: fits_def)
    from c have e: "\<not> ends_line c (f' @ 44 # t)"
      by (simp add: ends_line_plain)
    have "reader_events \<lparr>state = IN_FIELD, field_buf = [c], field_list = fl\<rparr>
            (line_events (f' @ 44 # t))
          = reader_events \<lparr>state = IN_FIELD, field_buf = [c] @ f', field_list = fl\<rparr>
            (line_events (44 # t))"
      by (rule unquoted_content [OF f' _ le]) simp
    with False Cons c e t show ?thesis
      by (simp add: csv_field_def ends_line_simps step_start(1) [OF st c lt] step_in_field)
  qed
qed

lemma field_over_limit:
  assumes st: "st = START_RECORD \<or> st = START_FIELD" and t: "t \<noteq> []"
    and plain: "\<not> list_ex csv_special f" and over: "field_size_limit < length f"
    and pos: "0 < field_size_limit"
  shows "reader_events \<lparr>state = st, field_buf = [], field_list = fl\<rparr>
           (line_events (f @ t)) = Inl CsvError"
proof (cases f)
  case Nil
  with over show ?thesis by simp
next
  case (Cons c f')
  with plain have c: "\<not> csv_special c" and f': "\<not> list_ex csv_special f'" by simp_all
  from c t have e: "\<not> ends_line c (f' @ t)" by (simp add: ends_line_plain)
  from pos have lt: "length ([] :: ustr) < field_size_limit" by simp
  from pos over Cons have "length [c] \<le> field_size_limit"
    and "field_size_limit < length [c] + length f'" by simp_all
  from unquoted_over_limit [OF f' t this, of fl] Cons c e show ?thesis
    by (simp add: step_start(1) [OF st c lt])
qed

lemma field_crlf:
  assumes st: "st = START_FIELD \<or> (st = START_RECORD \<and> f \<noteq> [])" and fit: "fits f"
  shows "reader_events \<lparr>state = st, field_buf = [], field_list = fl\<rparr>
           (line_events (csv_field f @ 13 # 10 # rest))
         = (case reader_events parse_reset (line_events rest) of
              Inl x \<Rightarrow> Inl x | Inr rows \<Rightarrow> Inr ((fl @ [f]) # rows))"
proof -
  from st have st': "st = START_RECORD \<or> st = START_FIELD" by auto
  show ?thesis
  proof (cases "list_ex csv_special f")
    case True
    from fit have "length ([] :: ustr) + length f \<le> field_size_limit" by (simp add: fits_def)
    from quoted_content [OF _ this, of "13 # 10 # rest" fl]
    have "reader_events \<lparr>state = IN_QUOTED_FIELD, field_buf = [], field_list = fl\<rparr>
            (line_events (concat (map (\<lambda>c. if c = 34 then [34, 34] else [c]) f)
               @ 34 # 13 # 10 # rest))
          = reader_events \<lparr>state = QUOTE_IN_QUOTED_FIELD, field_buf = [] @ f, field_list = fl\<rparr>
            (line_events (13 # 10 # rest))"
      by simp
    with True show ?thesis
      by (simp add: csv_field_def ends_line_simps step_start [OF st'] step_quote_in_quoted
          step_eat_crnl split: sum.splits)
  next
    case False
    show ?thesis
    proof (cases f)
      case Nil
      with st have "st = START_FIELD" by simp
      with Nil show ?thesis
        by (simp add: csv_field_def ends_line_simps step_start_field_cr step_eat_crnl
            split: sum.splits)
    next
      case (Cons c f')
      with False have c: "\<not> csv_special c" and f': "\<not> list_ex csv_special f'" by simp_all
      from fit Cons have lt: "length ([] :: ustr) < field_size_limit"
        and le: "length [c] + length f' \<le> field_size_limit" by (simp_all add: fits_def)
      from c have e: "\<not> ends_line c (f' @ 13 # 10 # rest)"
        by (simp add: ends_line_plain)
      have "reader_events \<lparr>state = IN_FIELD, field_buf = [c], field_list = fl\<rparr>
              (line_events (f' @ 13 # 10 # rest))
            = reader_events \<lparr>state = IN_FIELD, field_buf = [c] @ f', field_list = fl\<rparr>
              (line_events (13 # 10 # rest))"
        by (rule unquoted_content [OF f' _ le]) simp
      with False Cons c e show ?thesis
        by (simp add: csv_field_def ends_line_simps step_start(1) [OF st' c lt] step_in_field
            step_eat_crnl split: sum.splits)
    qed
  qed
qed

lemma join_fields:
  "list_all fits (f # fs) \<Longrightarrow>
   reader_events \<lparr>state = START_FIELD, field_buf = [], field_list = fl\<rparr>
     (line_events (py_join [44] (map csv_field (f # fs)) @ 13 # 10 # rest))
   = (case reader_events parse_reset (line_events rest) of
        Inl x \<Rightarrow> Inl x | Inr rows \<Rightarrow> Inr ((fl @ f # fs) # rows))"
proof (induction fs arbitrary: f fl)
  case Nil
  then show ?case using field_crlf [of START_FIELD f fl rest] by simp
next
  case (Cons g gs)
  then have f: "fits f" and gs: "list_all fits (g # gs)" by simp_all
  have "reader_events \<lparr>state = START_FIELD, field_buf = [], field_list = fl\<rparr>
          (line_events (csv_field f @ 44 # (py_join [44] (map csv_field (g # gs)) @ 13 # 10 # rest)))
        = reader_events \<lparr>state = START_FIELD, field_buf = [], field_list = fl @ [f]\<rparr>
          (line_events (py_join [44] (map csv_field (g # gs)) @ 13 # 10 # rest))"
    by (rule field_comma [OF _ _ f]) simp_all
  with Cons.IH [OF gs, of "fl @ [f]"] show ?case by (simp split: sum.splits)
qed

lemma csv_field_empty: "csv_field f = [] \<longleftrightarrow> f = []"
  by (cases f) (auto simp: csv_field_def)

lemma csv_record_row:
  assumes fit: "list_all fits fs"
  shows "reader_events parse_reset (line_events (csv_record fs @ rest))
   = (case reader_events parse_reset (line_events rest) of
        Inl x \<Rightarrow> Inl x | Inr rows \<Rightarrow> Inr (fs # rows))"
proof (cases fs)
  case Nil
  then show ?thesis
    by (simp add: csv_record_def parse_reset_def ends_line_simps step_start_record_cr
        step_eat_crnl split: sum.splits)
next
  case (Cons f gs)
  with fit have f: "fits f" and gs: "list_all fits gs" by simp_all
  show ?thesis
  proof (cases gs)
    case Nil
    show ?thesis
    proof (cases "f = []")
      case True
      with Cons Nil show ?thesis
        by (simp add: csv_record_def csv_field_empty parse_reset_def ends_line_simps
            step_start step_in_quoted step_quote_in_quoted step_eat_crnl split: sum.splits)
    next
      case False
      with Cons Nil field_crlf [of START_RECORD f, OF _ f, of "[]" rest] show ?thesis
        by (simp add: csv_record_def csv_field_empty parse_reset_def split: sum.splits)
    qed
  next
    case (Cons g hs)
    have "reader_events \<lparr>state = START_RECORD, field_buf = [], field_list = []\<rparr>
            (line_events (csv_field f @ 44 # (py_join [44] (map csv_field (g # hs)) @ 13 # 10 # rest)))
          = reader_events \<lparr>state = START_FIELD, field_buf = [], field_list = [] @ [f]\<rparr>
            (line_events (py_join [44] (map csv_field (g # hs)) @ 13 # 10 # rest))"
      by (rule field_comma [OF _ _ f]) simp_all
    with \<open>fs = f # gs\<close> Cons gs join_fields [of g hs "[f]" rest] show ?thesis
      by (simp add: csv_record_def parse_reset_def split: sum.splits)
  qed
qed

lemma csv_records_rows:
  "list_all (list_all fits) rows \<Longrightarrow>
   reader_events parse_reset (line_events (concat (map csv_record rows))) = Inr rows"
proof (induction rows)
  case Nil
  show ?case by (simp add: parse_reset_def)
next
  case (Cons r rows)
  then have "list_all fits r" and "list_all (list_all fits) rows" by simp_all
  with Cons.IH csv_record_row [of r "concat (map csv_record rows)"] show ?case by simp
qed

lemma csv_roundtrip:
  "list_all (list_all fits) rows \<Longrightarrow> csv_reader (concat (map csv_record rows)) = Inr rows"
  by (simp add: csv_reader_events csv_records_rows)

section \<open>Results about the exports\<close>

subsection \<open>What the exports write\<close>

lemma renders_time: "renders E s \<Longrightarrow> created_at_ist E s = Inr (the_time E s)"
  by (auto simp: renders_def the_time_def split: sum.splits)

lemma csv_cells_header: "map (csv_cell E) csv_header = header_cells"
  by (simp add: csv_header_def header_cells_def csv_cell_def)

lemma csv_cells_row: "map (csv_cell E) (csv_row E i s (the_time E s)) = story_cells E (i, s)"
  by (simp add: csv_row_def story_cells_def csv_cell_def py_or_def)

text \<open>A record can be encoded when its fields can: the writer adds commas, quotes and
  the line ending only.\<close>

lemma utf8_ok_simps [simp]:
  "utf8_ok []"
  "utf8_ok (c # cs) \<longleftrightarrow> \<not> (55296 \<le> c \<and> c \<le> 57343) \<and> utf8_ok cs"
  "utf8_ok (xs @ ys) \<longleftrightarrow> utf8_ok xs \<and> utf8_ok ys"
  by (auto simp: utf8_ok_def list_ex_iff)

lemma utf8_ok_quoted:
  "utf8_ok (concat (map (\<lambda>c. if c = 34 then [34, 34] else [c]) f)) \<longleftrightarrow> utf8_ok f"
  by (induction f) simp_all

lemma utf8_ok_csv_field: "utf8_ok (csv_field f) \<longleftrightarrow> utf8_ok f"
  by (simp add: csv_field_def utf8_ok_quoted)

lemma utf8_ok_join_fields:
  "utf8_ok (py_join [44] (map csv_field fs)) \<longleftrightarrow> list_all utf8_ok fs"
  by (induction fs rule: induct_list012) (simp_all add: utf8_ok_csv_field)

lemma utf8_ok_csv_record: "utf8_ok (csv_record fs) \<longleftrightarrow> list_all utf8_ok fs"
proof (cases "fs \<noteq> [] \<and> py_join [44] (map csv_field fs) = []")
  case True
  then have "utf8_ok (py_join [44] (map csv_field fs))" by simp
  then have "list_all utf8_ok fs" by (simp only: utf8_ok_join_fields)
  with True show ?thesis by (simp add: csv_record_def)
next
  case False
  then have "csv_record fs = py_join [44] (map csv_field fs) @ [13, 10]"
    by (auto simp: csv_record_def)
  then show ?thesis by (simp add: utf8_ok_join_fields)
qed

lemma file_write_ok: "utf8_ok s \<Longrightarrow> file_write s = Inr s"
  by (simp add: file_write_def)

lemma file_write_raises: "\<not> utf8_ok s \<Longrightarrow> file_write s = Inl UnicodeEncodeError"
  by (simp add: file_write_def)

lemma csv_rows_ok:
  "times_ok E ss \<Longrightarrow>
   list_all (\<lambda>r. list_all utf8_ok (story_cells E r)) (py_enumerate ss i) \<Longrightarrow>
   csv_rows E i ss = (concat (map (\<lambda>r. csv_record (story_cells E r)) (py_enumerate ss i)), None)"
proof (induction ss arbitrary: i)
  case Nil
  show ?case by simp
next
  case (Cons s ss)
  then have "renders E s" and "times_ok E ss"
    and "utf8_ok (csv_record (story_cells E (i, s)))"
    and "list_all (\<lambda>r. list_all utf8_ok (story_cells E r)) (py_enumerate ss (i + 1))"
    by (simp_all add: times_ok_def utf8_ok_csv_record)
  with Cons.IH [of "i + 1"] show ?case
    by (simp add: renders_time writerow_def csv_cells_row file_write_ok)
qed

lemma csv_rows_raises:
  "\<not> (times_ok E ss \<and>
      list_all (\<lambda>r. list_all utf8_ok (story_cells E r)) (py_enumerate ss i)) \<Longrightarrow>
   snd (csv_rows E i ss) \<noteq> None"
proof (induction ss arbitrary: i)
  case Nil
  then show ?case by (simp add: times_ok_def)
next
  case (Cons s ss)
  show ?case
  proof (cases "created_at_ist E s")
    case (Inl e)
    then show ?thesis by simp
  next
    case (Inr c)
    then have r: "renders E s" and c: "the_time E s = c"
      by (simp_all add: renders_def the_time_def)
    show ?thesis
    proof (cases "utf8_ok (csv_record (story_cells E (i, s)))")
      case False
      with Inr c show ?thesis
        by (simp add: writerow_def csv_cells_row [symmetric] file_write_raises)
    next
      case True
      with r Cons.prems have "\<not> (times_ok E ss \<and>
          list_all (\<lambda>r. list_all utf8_ok (story_cells E r)) (py_enumerate ss (i + 1)))"
        by (simp add: times_ok_def utf8_ok_csv_record)
      from Cons.IH [OF this] Inr show ?thesis
        by (auto split: prod.splits sum.splits)
    qed
  qed
qed

lemma csv_record_header:
  "csv_record header_cells =
     lit ''rank,id,title,score,comments,by,created_ist,hn_link,url'' @ [13, 10]"
  by (simp add: csv_record_def header_cells_def csv_field_def csv_special_def lit_def)

lemma write_csv_ok:
  "times_ok E ss \<Longrightarrow> cells_encode E ss \<Longrightarrow>
   write_csv E ss =
     (concat (map csv_record (header_cells # map (story_cells E) (py_enumerate ss 1))), None)"
  by (simp add: write_csv_def cells_encode_def csv_rows_ok file_write_header
      csv_record_header comp_def)

lemma md_items_ok:
  "times_ok E ss \<Longrightarrow> list_all (\<lambda>r. utf8_ok (md_line E r)) (py_enumerate ss i) \<Longrightarrow>
   md_items E i ss = (concat (map (md_line E) (py_enumerate ss i)), None)"
proof (induction ss arbitrary: i)
  case Nil
  show ?case by simp
next
  case (Cons s ss)
  then have "renders E s" and "times_ok E ss"
    and "utf8_ok (md_item E i s (the_time E s) @ [10])"
    and "list_all (\<lambda>r. utf8_ok (md_line E r)) (py_enumerate ss (i + 1))"
    by (simp_all add: times_ok_def md_line_def)
  with Cons.IH [of "i + 1"] show ?case
    by (simp add: renders_time md_line_def file_write_ok del: utf8_ok_simps)
qed

lemma md_items_raises:
  "\<not> (times_ok E ss \<and> list_all (\<lambda>r. utf8_ok (md_line E r)) (py_enumerate ss i)) \<Longrightarrow>
   snd (md_items E i ss) \<noteq> None"
proof (induction ss arbitrary: i)
  case Nil
  then show ?case by (simp add: times_ok_def)
next
  case (Cons s ss)
  show ?case
  proof (cases "created_at_ist E s")
    case (Inl e)
    then show ?thesis by simp
  next
    case (Inr c)
    then have r: "renders E s" and c: "the_time E s = c"
      by (simp_all add: renders_def the_time_def)
    show ?thesis
    proof (cases "utf8_ok (md_line E (i, s))")
      case False
      with Inr c show ?thesis
        by (simp add: md_line_def file_write_def del: utf8_ok_simps)
    next
      case True
      with r Cons.prems have "\<not> (times_ok E ss \<and>
          list_all (\<lambda>r. utf8_ok (md_line E r)) (py_enumerate ss (i + 1)))"
        by (simp add: times_ok_def)
      from Cons.IH [OF this] Inr show ?thesis
        by (auto split: prod.splits sum.splits)
    qed
  qed
qed

lemma write_md_ok:
  "times_ok E ss \<Longrightarrow> items_encode E ss \<Longrightarrow>
   write_md E ss = (md_heading @ concat (map (md_line E) (py_enumerate ss 1)), None)"
  by (simp add: write_md_def items_encode_def md_items_ok file_write_heading)

lemma py_enumerate_snd [simp]: "map snd (py_enumerate xs i) = xs"
  by (induction xs arbitrary: i) simp_all

lemma py_enumerate_fst: "map fst (py_enumerate xs i) = map (\<lambda>k. i + int k) [0 ..< length xs]"
proof (induction xs arbitrary: i)
  case Nil
  show ?case by simp
next
  case (Cons x xs)
  have "map (\<lambda>k. i + int k) [0 ..< Suc (length xs)]
        = i # map (\<lambda>k. i + 1 + int k) [0 ..< length xs]"
    by (simp add: upt_rec [of 0] map_Suc_upt [symmetric] del: upt_Suc)
  with Cons.IH [of "i + 1"] show ?case by simp
qed

lemma length_py_enumerate [simp]: "length (py_enumerate xs i) = length xs"
  by (induction xs arbitrary: i) simp_all

subsection \<open>Lines of a text without inner line breaks\<close>

lemma split_lines_plain:
  "no_break l \<Longrightarrow> rest \<noteq> [] \<Longrightarrow> split_lines cur (l @ rest) = split_lines (cur @ l) rest"
proof (induction l arbitrary: cur)
  case Nil
  show ?case by simp
next
  case (Cons c l)
  then have c: "c \<noteq> 10" "c \<noteq> 13" and l: "no_break l" by (simp_all add: no_break_def)
  from \<open>rest \<noteq> []\<close> obtain d ds where d: "l @ rest = d # ds" by (cases "l @ rest") auto
  from c d have "split_lines cur (c # l @ rest) = split_lines (cur @ [c]) (l @ rest)" by simp
  with Cons.IH [OF l \<open>rest \<noteq> []\<close>, of "cur @ [c]"] show ?case by simp
qed

lemma split_lines_lf: "split_lines cur (10 # rest) = (cur @ [10]) # split_lines [] rest"
  by (cases rest) simp_all

lemma split_lines_crlf: "split_lines cur (13 # 10 # rest) = (cur @ [13, 10]) # split_lines [] rest"
  by simp

lemma lines_of_lf_lines:
  "list_all no_break ls \<Longrightarrow> split_lines [] (concat (map (\<lambda>l. l @ [10]) ls)) = map (\<lambda>l. l @ [10]) ls"
proof (induction ls)
  case Nil
  show ?case by simp
next
  case (Cons l ls)
  then have "no_break l" and "list_all no_break ls" by simp_all
  with Cons.IH split_lines_plain [of l "10 # concat (map (\<lambda>l. l @ [10]) ls)" "[]"]
  show ?case by (simp add: split_lines_lf)
qed

lemma lines_of_crlf_lines:
  "list_all no_break ls \<Longrightarrow>
   split_lines [] (concat (map (\<lambda>l. l @ [13, 10]) ls)) = map (\<lambda>l. l @ [13, 10]) ls"
proof (induction ls)
  case Nil
  show ?case by simp
next
  case (Cons l ls)
  then have "no_break l" and "list_all no_break ls" by simp_all
  with Cons.IH split_lines_plain [of l "13 # 10 # concat (map (\<lambda>l. l @ [13, 10]) ls)" "[]"]
  show ?case by simp
qed

lemma no_break_append [simp]: "no_break (xs @ ys) \<longleftrightarrow> no_break xs \<and> no_break ys"
  by (auto simp: no_break_def list_ex_iff)

lemma no_break_csv_field: "no_break f \<Longrightarrow> no_break (csv_field f)"
  by (auto simp: no_break_def csv_field_def list_ex_iff split: if_splits)

lemma no_break_join_fields:
  "list_all no_break fs \<Longrightarrow> no_break (py_join [44] (map csv_field fs))"
proof (induction fs rule: induct_list012)
  case 1
  show ?case by (simp add: no_break_def)
next
  case (2 f)
  then show ?case by (simp add: no_break_csv_field)
next
  case (3 f g fs)
  then show ?case by (simp add: no_break_csv_field) (simp add: no_break_def)
qed

lemma csv_record_line:
  assumes "list_all no_break fs"
  obtains l where "csv_record fs = l @ [13, 10]" and "no_break l"
proof (cases "fs \<noteq> [] \<and> py_join [44] (map csv_field fs) = []")
  case True
  have "no_break [34, 34]" by (simp add: no_break_def)
  moreover from True have "csv_record fs = [34, 34] @ [13, 10]" by (simp add: csv_record_def)
  ultimately show ?thesis by (rule that [rotated])
next
  case False
  then have "csv_record fs = py_join [44] (map csv_field fs) @ [13, 10]"
    by (auto simp: csv_record_def)
  with no_break_join_fields [OF assms] show ?thesis by (rule that [rotated])
qed

lemma lines_of_csv_records:
  "list_all (list_all no_break) rows \<Longrightarrow>
   readlines (concat (map csv_record rows)) = map csv_record rows"
  unfolding readlines_def
proof (induction rows)
  case Nil
  show ?case by simp
next
  case (Cons r rows)
  then have "list_all no_break r" and rows: "list_all (list_all no_break) rows" by simp_all
  then obtain l where l: "csv_record r = l @ [13, 10]" "no_break l"
    by (auto elim: csv_record_line)
  from split_lines_plain [OF l(2), of "13 # 10 # concat (map csv_record rows)" "[]"]
    Cons.IH [OF rows] l(1)
  show ?case by simp
qed

lemma no_break_header: "list_all no_break header_cells"
  by (simp add: header_cells_def no_break_def lit_def)

lemma lab_ist:
  "- 62135596800 \<le> t \<Longrightarrow> t \<le> 253402300799 \<Longrightarrow> ist (lab_env n) t = Inr (str_int t)"
  "253402300799 < t \<Longrightarrow> ist (lab_env n) t = Inl ValueError"
  by (simp_all add: lab_env_def)

lemma str_int_numeral:
  "str_int 1 = [49]" "str_int 2 = [50]" "str_int 5 = [53]" "str_int 50 = [53, 48]"
  "str_int 2000 = [50, 48, 48, 48]"
  by (simp_all add: str_int_def digits.simps)

lemma fits_header: "list_all fits header_cells"
  by (simp add: header_cells_def fits_def field_size_limit_def lit_def)

lemma csv_field_plain: "\<not> list_ex csv_special f \<Longrightarrow> csv_field f = f"
  by (simp add: csv_field_def)

lemma plain_replicate: "\<not> list_ex csv_special (replicate n 97)"
  by (simp add: list_ex_iff csv_special_def)

lemma utf8_ok_replicate: "utf8_ok (replicate n 97)"
  by (simp add: utf8_ok_def list_ex_iff)

text \<open>
  C6, as amended. When \<^verbatim>\<open>created_at_ist\<close> renders the time of each of the \<open>N\<close> stories and
  no cell of their rows holds a surrogate, \<open>write_csv\<close> writes exactly \<open>N + 1\<close> CSV records:
  the header row \<^verbatim>\<open>rank,id,title,score,comments,by,created_ist,hn_link,url\<close>, then one row
  per story in rank order under the writer's quoting, with the empty string for a missing
  URL. When every cell is within the reader's field size limit, reading the file back
  gives these \<open>N + 1\<close> records, in this order and with the same field values, numbers as
  their decimal strings. The file has \<open>N + 1\<close> lines when no field holds a line break.
  When some time cannot be rendered or some row cannot be encoded, \<open>write_csv\<close> raises.
\<close>

theorem write_csv_roundtrip:
  "(times_ok E stories \<and> cells_encode E stories \<longrightarrow>
      write_csv E stories =
        (concat (map csv_record (header_cells # map (story_cells E) (py_enumerate stories 1))),
         None) \<and>
      (cells_fit E stories \<longrightarrow>
         csv_reader (fst (write_csv E stories)) =
           Inr (header_cells # map (story_cells E) (py_enumerate stories 1))) \<and>
      (list_all (\<lambda>r. list_all no_break (story_cells E r)) (py_enumerate stories 1) \<longrightarrow>
         length (readlines (fst (write_csv E stories))) = length stories + 1)) \<and>
   (\<not> (times_ok E stories \<and> cells_encode E stories) \<longrightarrow>
      snd (write_csv E stories) \<noteq> None) \<and>
   length (header_cells # map (story_cells E) (py_enumerate stories 1)) = length stories + 1 \<and>
   map fst (py_enumerate stories 1) = map (\<lambda>k. 1 + int k) [0 ..< length stories] \<and>
   map snd (py_enumerate stories 1) = stories \<and>
   csv_record header_cells =
     lit ''rank,id,title,score,comments,by,created_ist,hn_link,url'' @ [13, 10] \<and>
   (\<not> truthy (url s) \<longrightarrow> last (story_cells E (i, s)) = [])"
proof (intro conjI impI)
  assume "times_ok E stories \<and> cells_encode E stories"
  then have ok: "times_ok E stories" and enc: "cells_encode E stories" by simp_all
  show w: "write_csv E stories =
        (concat (map csv_record (header_cells # map (story_cells E) (py_enumerate stories 1))),
         None)"
    by (rule write_csv_ok [OF ok enc])
  {
    assume "cells_fit E stories"
    then have "list_all (list_all fits)
                 (header_cells # map (story_cells E) (py_enumerate stories 1))"
      using fits_header by (simp add: cells_fit_def list_all_iff)
    from csv_roundtrip [OF this]
    show "csv_reader (fst (write_csv E stories)) =
          Inr (header_cells # map (story_cells E) (py_enumerate stories 1))"
      unfolding w fst_conv .
  }
  assume "list_all (\<lambda>r. list_all no_break (story_cells E r)) (py_enumerate stories 1)"
  then have "list_all (list_all no_break)
               (header_cells # map (story_cells E) (py_enumerate stories 1))"
    using no_break_header by (simp add: list_all_iff)
  from lines_of_csv_records [OF this]
  show "length (readlines (fst (write_csv E stories))) = length stories + 1"
    unfolding w fst_conv by simp
next
  assume "\<not> (times_ok E stories \<and> cells_encode E stories)"
  then have "\<not> (times_ok E stories \<and>
      list_all (\<lambda>r. list_all utf8_ok (story_cells E r)) (py_enumerate stories 1))"
    by (simp add: cells_encode_def)
  from csv_rows_raises [OF this]
  show "snd (write_csv E stories) \<noteq> None"
    by (auto simp: write_csv_def file_write_header split: prod.splits)
next
  show "length (header_cells # map (story_cells E) (py_enumerate stories 1)) = length stories + 1"
    by simp
  show "map fst (py_enumerate stories 1) = map (\<lambda>k. 1 + int k) [0 ..< length stories]"
    by (rule py_enumerate_fst)
  show "map snd (py_enumerate stories 1) = stories" by simp
  show "csv_record header_cells =
     lit ''rank,id,title,score,comments,by,created_ist,hn_link,url'' @ [13, 10]"
    by (rule csv_record_header)
next
  assume "\<not> truthy (url s)"
  then show "last (story_cells E (i, s)) = []" by (simp add: story_cells_def)
qed

theorem write_csv_roundtrip_witness:
  "times_ok (lab_env offline)
     [\<lparr> id' = JInt 1, title = JStr [97, 44, 34, 98], url = JNull, score = 50,
        by' = JStr [120], time = 2000, descendants = 5 \<rparr>] \<and>
   cells_encode (lab_env offline)
     [\<lparr> id' = JInt 1, title = JStr [97, 44, 34, 98], url = JNull, score = 50,
        by' = JStr [120], time = 2000, descendants = 5 \<rparr>] \<and>
   cells_fit (lab_env offline)
     [\<lparr> id' = JInt 1, title = JStr [97, 44, 34, 98], url = JNull, score = 50,
        by' = JStr [120], time = 2000, descendants = 5 \<rparr>] \<and>
   csv_reader (fst (write_csv (lab_env offline)
     [\<lparr> id' = JInt 1, title = JStr [97, 44, 34, 98], url = JNull, score = 50,
        by' = JStr [120], time = 2000, descendants = 5 \<rparr>]))
   = Inr [header_cells,
          [[49], [49], [97, 44, 34, 98], [53, 48], [53], [120], [50, 48, 48, 48],
           lit ''https://news.ycombinator.com/item?id=1'', []]] \<and>
   length (readlines (fst (write_csv (lab_env offline)
     [\<lparr> id' = JInt 1, title = JStr [97, 44, 34, 98], url = JNull, score = 50,
        by' = JStr [120], time = 2000, descendants = 5 \<rparr>]))) = 2"
proof -
  let ?s = "\<lparr> id' = JInt 1, title = JStr [97, 44, 34, 98], url = JNull, score = 50,
        by' = JStr [120], time = 2000, descendants = 5 \<rparr>"
  let ?E = "lab_env offline"
  have t: "created_at_ist ?E ?s = Inr [50, 48, 48, 48]"
    by (simp add: created_at_ist_def lab_ist str_int_numeral)
  then have ok: "times_ok ?E [?s]" by (simp add: times_ok_def renders_def)
  have cells: "map (story_cells ?E) (py_enumerate [?s] 1) =
      [[[49], [49], [97, 44, 34, 98], [53, 48], [53], [120], [50, 48, 48, 48],
           lit ''https://news.ycombinator.com/item?id=1'', []]]"
    using t by (simp add: story_cells_def csv_cell_def the_time_def str_int_numeral hn_link_def
        HN_ITEM_URL_def lit_def)
  have enc: "cells_encode ?E [?s]"
    using t by (simp add: cells_encode_def story_cells_def csv_cell_def the_time_def
        str_int_numeral hn_link_def HN_ITEM_URL_def lit_def)
  have fit: "cells_fit ?E [?s]"
    using t by (simp add: cells_fit_def story_cells_def csv_cell_def the_time_def
        str_int_numeral hn_link_def HN_ITEM_URL_def fits_def field_size_limit_def lit_def)
  have nb: "list_all (\<lambda>r. list_all no_break (story_cells ?E r)) (py_enumerate [?s] 1)"
    using t by (simp add: story_cells_def csv_cell_def the_time_def str_int_numeral hn_link_def
        HN_ITEM_URL_def no_break_def lit_def)
  note T = write_csv_roundtrip [of ?E "[?s]", THEN conjunct1, rule_format, OF conjI [OF ok enc]]
  from T [THEN conjunct2, THEN conjunct1, rule_format, OF fit] cells
  have "csv_reader (fst (write_csv ?E [?s])) =
     Inr [header_cells,
          [[49], [49], [97, 44, 34, 98], [53, 48], [53], [120], [50, 48, 48, 48],
           lit ''https://news.ycombinator.com/item?id=1'', []]]"
    by simp
  moreover from T [THEN conjunct2, THEN conjunct2, rule_format, OF nb]
  have "length (readlines (fst (write_csv ?E [?s]))) = 2" by simp
  ultimately show ?thesis using ok enc fit by blast
qed

text \<open>
  A title with a line feed is written inside quotes, line feed included: the file of one
  story then has three lines. A creation time beyond the year 9999 cannot be rendered:
  \<open>write_csv\<close> raises after the header row. So it does for a title that is a lone
  surrogate, which the file cannot encode. And a title of 131073 letters is written, but
  \<^verbatim>\<open>csv.reader\<close> refuses the field when the file is read back.
\<close>

lemma broken_title_file:
  "write_csv (lab_env offline)
     [\<lparr> id' = JInt 1, title = JStr [97, 10, 98], url = JNull, score = 50,
        by' = JStr [120], time = 2000, descendants = 5 \<rparr>]
   = (lit ''rank,id,title,score,comments,by,created_ist,hn_link,url'' @ [13, 10]
      @ lit ''1,1,'' @ [34, 97, 10, 98, 34]
      @ lit '',50,5,x,2000,https://news.ycombinator.com/item?id=1,'' @ [13, 10], None)"
  by (simp add: write_csv_def file_write_def writerow_def csv_header_def
      created_at_ist_def lab_ist str_int_numeral csv_row_def csv_cell_def csv_record_def
      csv_field_def csv_special_def hn_link_def HN_ITEM_URL_def py_or_def lit_def)

lemma long_title_file:
  "fst (write_csv (lab_env offline)
     [\<lparr> id' = JInt 1, title = JStr (replicate 131073 97), url = JNull, score = 50,
        by' = JStr [120], time = 2000, descendants = 5 \<rparr>])
   = csv_record header_cells
     @ csv_field [49] @ 44 # csv_field [49] @ 44 # replicate 131073 97
     @ 44 # lit ''50,5,x,2000,https://news.ycombinator.com/item?id=1,'' @ [13, 10]"
proof -
  let ?s = "\<lparr> id' = JInt 1, title = JStr (replicate 131073 97), url = JNull, score = 50,
        by' = JStr [120], time = 2000, descendants = 5 \<rparr>"
  let ?E = "lab_env offline"
  have t: "created_at_ist ?E ?s = Inr [50, 48, 48, 48]"
    by (simp add: created_at_ist_def lab_ist str_int_numeral)
  then have ok: "times_ok ?E [?s]" by (simp add: times_ok_def renders_def)
  have cells: "story_cells ?E (1, ?s) =
      [[49], [49], replicate 131073 97, [53, 48], [53], [120], [50, 48, 48, 48],
       lit ''https://news.ycombinator.com/item?id=1'', []]"
    using t by (simp add: story_cells_def csv_cell_def the_time_def str_int_numeral hn_link_def
        HN_ITEM_URL_def lit_def)
  have enc: "cells_encode ?E [?s]"
    by (simp add: cells_encode_def cells utf8_ok_replicate lit_def del: utf8_ok_simps(2))
      (simp add: utf8_ok_def)
  have "csv_record (story_cells ?E (1, ?s)) =
      csv_field [49] @ 44 # csv_field [49] @ 44 # replicate 131073 97
      @ 44 # lit ''50,5,x,2000,https://news.ycombinator.com/item?id=1,'' @ [13, 10]"
    unfolding cells
    by (simp add: csv_record_def csv_field_plain [OF plain_replicate])
      (simp add: csv_field_def csv_special_def lit_def)
  with write_csv_ok [OF ok enc] show ?thesis by simp
qed

theorem write_csv_lines_counterexample:
  "length (readlines (fst (write_csv (lab_env offline)
     [\<lparr> id' = JInt 1, title = JStr [97, 10, 98], url = JNull, score = 50,
        by' = JStr [120], time = 2000, descendants = 5 \<rparr>]))) = 3 \<and>
   write_csv (lab_env offline)
     [\<lparr> id' = JInt 1, title = JStr [97], url = JNull, score = 50,
        by' = JStr [120], time = 1000000000000, descendants = 5 \<rparr>]
   = (lit ''rank,id,title,score,comments,by,created_ist,hn_link,url'' @ [13, 10],
      Some ValueError) \<and>
   write_csv (lab_env offline)
     [\<lparr> id' = JInt 1, title = JStr [55296], url = JNull, score = 50,
        by' = JStr [120], time = 2000, descendants = 5 \<rparr>]
   = (lit ''rank,id,title,score,comments,by,created_ist,hn_link,url'' @ [13, 10],
      Some UnicodeEncodeError) \<and>
   csv_reader (fst (write_csv (lab_env offline)
     [\<lparr> id' = JInt 1, title = JStr (replicate 131073 97), url = JNull, score = 50,
        by' = JStr [120], time = 2000, descendants = 5 \<rparr>])) = Inl CsvError"
proof -
  have "length (readlines (fst (write_csv (lab_env offline)
     [\<lparr> id' = JInt 1, title = JStr [97, 10, 98], url = JNull, score = 50,
        by' = JStr [120], time = 2000, descendants = 5 \<rparr>]))) = 3"
    unfolding broken_title_file fst_conv by (simp add: readlines_def lit_def)
  moreover have "write_csv (lab_env offline)
     [\<lparr> id' = JInt 1, title = JStr [97], url = JNull, score = 50,
        by' = JStr [120], time = 1000000000000, descendants = 5 \<rparr>]
   = (lit ''rank,id,title,score,comments,by,created_ist,hn_link,url'' @ [13, 10],
      Some ValueError)"
    by (simp add: write_csv_def file_write_header created_at_ist_def lab_ist)
  moreover have "write_csv (lab_env offline)
     [\<lparr> id' = JInt 1, title = JStr [55296], url = JNull, score = 50,
        by' = JStr [120], time = 2000, descendants = 5 \<rparr>]
   = (lit ''rank,id,title,score,comments,by,created_ist,hn_link,url'' @ [13, 10],
      Some UnicodeEncodeError)"
    by (simp add: write_csv_def file_write_def writerow_def csv_header_def
        created_at_ist_def lab_ist str_int_numeral csv_row_def csv_cell_def csv_record_def
        csv_field_def csv_special_def hn_link_def HN_ITEM_URL_def py_or_def lit_def)
  moreover have "csv_reader (fst (write_csv (lab_env offline)
     [\<lparr> id' = JInt 1, title = JStr (replicate 131073 97), url = JNull, score = 50,
        by' = JStr [120], time = 2000, descendants = 5 \<rparr>])) = Inl CsvError"
  proof -
    let ?rest = "44 # lit ''50,5,x,2000,https://news.ycombinator.com/item?id=1,'' @ [13, 10]"
    have one: "fits [49]" by (simp add: fits_def field_size_limit_def)
    have "reader_events \<lparr>state = START_RECORD, field_buf = [], field_list = []\<rparr>
            (line_events (csv_field [49] @ 44 # (csv_field [49] @ 44
               # (replicate 131073 97 @ ?rest))))
          = reader_events \<lparr>state = START_FIELD, field_buf = [], field_list = [] @ [[49]]\<rparr>
            (line_events (csv_field [49] @ 44 # (replicate 131073 97 @ ?rest)))"
      by (rule field_comma [OF _ _ one]) simp_all
    also have "\<dots> = reader_events
            \<lparr>state = START_FIELD, field_buf = [], field_list = ([] @ [[49]]) @ [[49]]\<rparr>
            (line_events (replicate 131073 97 @ ?rest))"
      by (rule field_comma [OF _ _ one]) simp_all
    also have "\<dots> = Inl CsvError"
      by (rule field_over_limit [OF _ _ plain_replicate])
        (simp_all add: field_size_limit_def)
    finally have row: "reader_events parse_reset
            (line_events (csv_field [49] @ 44 # csv_field [49] @ 44
               # replicate 131073 97 @ ?rest)) = Inl CsvError"
      by (simp add: parse_reset_def)
    show ?thesis
      unfolding long_title_file csv_reader_events
      using csv_record_row [OF fits_header,
          of "csv_field [49] @ 44 # csv_field [49] @ 44 # replicate 131073 97 @ ?rest"] row
      by simp
  qed
  ultimately show ?thesis by blast
qed

lemma md_line_form:
  "md_line E (i, s) =
     str_int i @ lit ''. ['' @ py_str E (title s) @ lit ''](''
     @ (if truthy (url s) then py_str E (url s) else hn_link E s) @ lit '') '' @ EM_DASH
     @ lit '' **'' @ str_int (score s) @ lit '' points**, ''
     @ str_int (descendants s) @ lit '' comments '' @ EM_DASH @ lit '' '' @ the_time E s
     @ lit '' '' @ EM_DASH @ lit '' [HN]('' @ hn_link E s @ lit '')'' @ [10]"
  by (simp add: md_line_def md_item_def py_or_def)

lemma md_line_item: "md_line E r = md_item E (fst r) (snd r) (the_time E (snd r)) @ [10]"
  by (cases r) (simp add: md_line_def)

lemma lines_of_md:
  assumes "list_all (\<lambda>r. no_break (md_item E (fst r) (snd r) (the_time E (snd r)))) rs"
  shows "readlines (md_heading @ concat (map (md_line E) rs)) =
           (lit ''# Top 10 New Hacker News (last 24h, IST)'' @ [10]) # [10] # map (md_line E) rs"
proof -
  let ?h = "lit ''# Top 10 New Hacker News (last 24h, IST)''"
  let ?items = "map (\<lambda>r. md_item E (fst r) (snd r) (the_time E (snd r))) rs"
  have h: "no_break ?h" by (simp add: no_break_def lit_def)
  have fn: "md_line E = (\<lambda>r. md_item E (fst r) (snd r) (the_time E (snd r)) @ [10])"
    by (rule ext) (rule md_line_item)
  have items: "concat (map (md_line E) rs) = concat (map (\<lambda>l. l @ [10]) ?items)"
    and lines: "map (md_line E) rs = map (\<lambda>l. l @ [10]) ?items"
    by (simp_all add: fn comp_def)
  from assms have "list_all no_break ?items" by (simp add: list_all_iff)
  from lines_of_lf_lines [OF this]
  have rest: "split_lines [] (concat (map (md_line E) rs)) = map (md_line E) rs"
    by (simp only: items lines)
  have "readlines (md_heading @ concat (map (md_line E) rs))
        = split_lines [] (?h @ 10 # 10 # concat (map (md_line E) rs))"
    by (simp add: readlines_def md_heading_def)
  also have "\<dots> = split_lines ([] @ ?h) (10 # 10 # concat (map (md_line E) rs))"
    by (rule split_lines_plain [OF h]) simp
  also have "\<dots> = (?h @ [10]) # [10] # split_lines [] (concat (map (md_line E) rs))"
    by (simp add: split_lines_lf)
  finally show ?thesis by (simp only: rest)
qed

text \<open>
  C7, as amended. When \<^verbatim>\<open>created_at_ist\<close> renders the time of each of the \<open>N\<close> stories, no
  item holds a surrogate and no item holds a line break, \<open>write_md\<close> writes a file of
  exactly \<open>N + 2\<close> lines: the level-1 heading, an empty line, and one line per story in rank
  order, which begins with the story's 1-based rank and has the form
  \<^verbatim>\<open>N. [title](url) - **score points**, N comments - timestamp - [HN](hn_link)\<close> with
  em dashes, the HN link standing for a missing URL. When some time cannot be rendered or
  some item cannot be encoded, \<open>write_md\<close> raises.
\<close>

theorem write_md_lines:
  "(times_ok E stories \<and> items_encode E stories \<longrightarrow>
      write_md E stories = (md_heading @ concat (map (md_line E) (py_enumerate stories 1)), None) \<and>
      (list_all (\<lambda>r. no_break (md_item E (fst r) (snd r) (the_time E (snd r))))
          (py_enumerate stories 1) \<longrightarrow>
         readlines (fst (write_md E stories)) =
           (lit ''# Top 10 New Hacker News (last 24h, IST)'' @ [10]) # [10]
           # map (md_line E) (py_enumerate stories 1) \<and>
         length (readlines (fst (write_md E stories))) = length stories + 2)) \<and>
   (\<not> (times_ok E stories \<and> items_encode E stories) \<longrightarrow>
      snd (write_md E stories) \<noteq> None) \<and>
   md_line E (i, s) =
     str_int i @ lit ''. ['' @ py_str E (title s) @ lit ''](''
     @ (if truthy (url s) then py_str E (url s) else hn_link E s) @ lit '') '' @ EM_DASH
     @ lit '' **'' @ str_int (score s) @ lit '' points**, ''
     @ str_int (descendants s) @ lit '' comments '' @ EM_DASH @ lit '' '' @ the_time E s
     @ lit '' '' @ EM_DASH @ lit '' [HN]('' @ hn_link E s @ lit '')'' @ [10] \<and>
   map fst (py_enumerate stories 1) = map (\<lambda>k. 1 + int k) [0 ..< length stories] \<and>
   map snd (py_enumerate stories 1) = stories"
proof (intro conjI impI)
  assume "times_ok E stories \<and> items_encode E stories"
  then have ok: "times_ok E stories" and enc: "items_encode E stories" by simp_all
  show w: "write_md E stories =
      (md_heading @ concat (map (md_line E) (py_enumerate stories 1)), None)"
    by (rule write_md_ok [OF ok enc])
  assume nb: "list_all (\<lambda>r. no_break (md_item E (fst r) (snd r) (the_time E (snd r))))
          (py_enumerate stories 1)"
  show l: "readlines (fst (write_md E stories)) =
           (lit ''# Top 10 New Hacker News (last 24h, IST)'' @ [10]) # [10]
           # map (md_line E) (py_enumerate stories 1)"
    unfolding w fst_conv by (rule lines_of_md [OF nb])
  show "length (readlines (fst (write_md E stories))) = length stories + 2"
    unfolding l by simp
next
  assume "\<not> (times_ok E stories \<and> items_encode E stories)"
  then have "\<not> (times_ok E stories \<and>
      list_all (\<lambda>r. utf8_ok (md_line E r)) (py_enumerate stories 1))"
    by (simp add: items_encode_def)
  from md_items_raises [OF this]
  show "snd (write_md E stories) \<noteq> None"
    by (auto simp: write_md_def file_write_heading split: prod.splits)
next
  show "md_line E (i, s) =
     str_int i @ lit ''. ['' @ py_str E (title s) @ lit ''](''
     @ (if truthy (url s) then py_str E (url s) else hn_link E s) @ lit '') '' @ EM_DASH
     @ lit '' **'' @ str_int (score s) @ lit '' points**, ''
     @ str_int (descendants s) @ lit '' comments '' @ EM_DASH @ lit '' '' @ the_time E s
     @ lit '' '' @ EM_DASH @ lit '' [HN]('' @ hn_link E s @ lit '')'' @ [10]"
    by (rule md_line_form)
  show "map fst (py_enumerate stories 1) = map (\<lambda>k. 1 + int k) [0 ..< length stories]"
    by (rule py_enumerate_fst)
  show "map snd (py_enumerate stories 1) = stories" by simp
qed

lemma plain_md_item:
  "md_item (lab_env offline) 1 (plain 1 50 5 2000) [50, 48, 48, 48] =
     lit ''1. [T](https://news.ycombinator.com/item?id=1) '' @ EM_DASH
     @ lit '' **50 points**, 5 comments '' @ EM_DASH @ lit '' 2000 '' @ EM_DASH
     @ lit '' [HN](https://news.ycombinator.com/item?id=1)''"
  by (simp add: md_item_def plain_def py_or_def hn_link_def HN_ITEM_URL_def str_int_numeral
      lit_def)

lemma plain_time: "created_at_ist (lab_env offline) (plain 1 50 5 2000) = Inr [50, 48, 48, 48]"
  by (simp add: created_at_ist_def plain_def lab_ist str_int_numeral)

lemma plain_md_encodes:
  "utf8_ok (md_item (lab_env offline) 1 (plain 1 50 5 2000) [50, 48, 48, 48] @ [10])"
  by (simp add: plain_md_item lit_def EM_DASH_def)

theorem write_md_lines_witness:
  "times_ok (lab_env offline) [plain 1 50 5 2000] \<and>
   items_encode (lab_env offline) [plain 1 50 5 2000] \<and>
   readlines (fst (write_md (lab_env offline) [plain 1 50 5 2000])) =
     [lit ''# Top 10 New Hacker News (last 24h, IST)'' @ [10],
      [10],
      lit ''1. [T](https://news.ycombinator.com/item?id=1) '' @ EM_DASH
      @ lit '' **50 points**, 5 comments '' @ EM_DASH @ lit '' 2000 '' @ EM_DASH
      @ lit '' [HN](https://news.ycombinator.com/item?id=1)'' @ [10]] \<and>
   length (readlines (fst (write_md (lab_env offline) [plain 1 50 5 2000]))) = 3"
proof -
  let ?E = "lab_env offline"
  let ?s = "plain 1 50 5 2000"
  have ok: "times_ok ?E [?s]" by (simp add: times_ok_def renders_def plain_time)
  have t: "the_time ?E ?s = [50, 48, 48, 48]" by (simp add: the_time_def plain_time)
  have enc: "items_encode ?E [?s]"
    using plain_md_encodes by (simp add: items_encode_def md_line_def t del: utf8_ok_simps)
  have nb: "list_all (\<lambda>r. no_break (md_item ?E (fst r) (snd r) (the_time ?E (snd r))))
          (py_enumerate [?s] 1)"
    by (simp add: t plain_md_item no_break_def lit_def EM_DASH_def)
  note T = write_md_lines [of ?E "[?s]", THEN conjunct1, rule_format, OF conjI [OF ok enc],
      THEN conjunct2, rule_format, OF nb]
  have "map (md_line ?E) (py_enumerate [?s] 1) =
     [lit ''1. [T](https://news.ycombinator.com/item?id=1) '' @ EM_DASH
      @ lit '' **50 points**, 5 comments '' @ EM_DASH @ lit '' 2000 '' @ EM_DASH
      @ lit '' [HN](https://news.ycombinator.com/item?id=1)'' @ [10]]"
    by (simp add: md_line_def t plain_md_item)
  with T ok enc show ?thesis by simp
qed

text \<open>
  The heading is followed by an empty line, so one story gives three lines, not two; a
  line feed in a title gives one more; a creation time beyond the year 9999 makes
  \<open>write_md\<close> raise after the heading, and so does a title that is a lone surrogate,
  which the file cannot encode.
\<close>

lemma broken_title_md:
  "write_md (lab_env offline)
     [\<lparr> id' = JInt 1, title = JStr [97, 10, 98], url = JNull, score = 50,
        by' = JStr [120], time = 2000, descendants = 5 \<rparr>]
   = (md_heading @ lit ''1. ['' @ [97, 10, 98]
      @ lit ''](https://news.ycombinator.com/item?id=1) '' @ EM_DASH
      @ lit '' **50 points**, 5 comments '' @ EM_DASH @ lit '' 2000 '' @ EM_DASH
      @ lit '' [HN](https://news.ycombinator.com/item?id=1)'' @ [10], None)"
  by (simp add: write_md_def file_write_def created_at_ist_def lab_ist
      str_int_numeral md_item_def py_or_def hn_link_def HN_ITEM_URL_def md_heading_def
      EM_DASH_def lit_def)

theorem write_md_lines_counterexample:
  "length (readlines (fst (write_md (lab_env offline) [plain 1 50 5 2000]))) = 3 \<and>
   length (readlines (fst (write_md (lab_env offline) [plain 1 50 5 2000])))
     \<noteq> 1 + length [plain 1 50 5 2000] \<and>
   length (readlines (fst (write_md (lab_env offline)
     [\<lparr> id' = JInt 1, title = JStr [97, 10, 98], url = JNull, score = 50,
        by' = JStr [120], time = 2000, descendants = 5 \<rparr>]))) = 4 \<and>
   write_md (lab_env offline) [plain 1 50 5 1000000000000] = (md_heading, Some ValueError) \<and>
   write_md (lab_env offline)
     [\<lparr> id' = JInt 1, title = JStr [55296], url = JNull, score = 50,
        by' = JStr [120], time = 2000, descendants = 5 \<rparr>]
   = (md_heading, Some UnicodeEncodeError)"
proof -
  have "write_md (lab_env offline) [plain 1 50 5 2000] =
     (md_heading
      @ md_item (lab_env offline) 1 (plain 1 50 5 2000) [50, 48, 48, 48] @ [10], None)"
    using plain_md_encodes
    by (simp add: write_md_def file_write_heading file_write_ok plain_time
        del: utf8_ok_simps)
  then have "length (readlines (fst (write_md (lab_env offline) [plain 1 50 5 2000]))) = 3"
    by (simp add: plain_md_item md_heading_def readlines_def lit_def EM_DASH_def)
  moreover have "length (readlines (fst (write_md (lab_env offline)
     [\<lparr> id' = JInt 1, title = JStr [97, 10, 98], url = JNull, score = 50,
        by' = JStr [120], time = 2000, descendants = 5 \<rparr>]))) = 4"
    unfolding broken_title_md fst_conv
    by (simp add: md_heading_def readlines_def lit_def EM_DASH_def)
  moreover have
    "write_md (lab_env offline) [plain 1 50 5 1000000000000] = (md_heading, Some ValueError)"
    by (simp add: write_md_def file_write_heading created_at_ist_def plain_def lab_ist)
  moreover have "write_md (lab_env offline)
     [\<lparr> id' = JInt 1, title = JStr [55296], url = JNull, score = 50,
        by' = JStr [120], time = 2000, descendants = 5 \<rparr>]
   = (md_heading, Some UnicodeEncodeError)"
    by (simp add: write_md_def file_write_def md_heading_def
        created_at_ist_def lab_ist str_int_numeral md_item_def py_or_def hn_link_def
        HN_ITEM_URL_def EM_DASH_def lit_def)
  ultimately show ?thesis by simp
qed

end
